theory Spec2Isabelle
  imports Main
begin

section \<open>Errors, shared state and the collaborators' interfaces\<close>

text \<open>
  The orchestration kernel of \<^verbatim>\<open>src/main.py\<close> and \<^verbatim>\<open>src/utils/analysts.py\<close>.
  Exceptions are values of \<open>error\<close>; every constructor stands for a subclass of Python's
  \<^verbatim>\<open>Exception\<close>. \<open>ExternalError\<close> is whatever exception a collaborator (the identity
  service, an agent, the graph library's executor) raises on its own account.
\<close>

datatype error =
    ValueError string
  | KeyError string
  | IndexError
  | UnboundLocalError string
  | JSONDecodeError string
  | RecursionError
  | ExternalError string

type_synonym signal = string

record message =
  content :: string

record data_rec =
  tickers :: "string list"
  portfolio :: "(string \<times> int) list"
  start_date :: string
  end_date :: string
  analyst_signals :: "string \<rightharpoonup> signal"

record metadata_rec =
  show_reasoning :: bool
  model_name :: string
  model_provider :: string

record agent_state =
  messages :: "message list"
  data :: data_rec
  metadata :: metadata_rec

text \<open>An agent is a callable on the shared state; it returns the next state or raises.\<close>

type_synonym agent = "agent_state \<Rightarrow> error + agent_state"

text \<open>
  The nine agent callables that \<^verbatim>\<open>main.py\<close> imports from the \<^verbatim>\<open>agents\<close> package. Their
  bodies are not part of the kernel, so they are parameters of the model.
\<close>

record agent_modules =
  warren_buffett_agent :: agent
  ben_graham_agent :: agent
  bill_ackman_agent :: agent
  fundamentals_agent :: agent
  technical_analyst_agent :: agent
  sentiment_agent :: agent
  valuation_agent :: agent
  portfolio_management_agent :: agent
  risk_management_agent :: agent

text \<open>
  The identity client (\<^verbatim>\<open>aztp_client.Aztp\<close>) as the kernel uses it. A secure connection
  carries the callable it was created for (the attribute \<^verbatim>\<open>_agent\<close>) and an opaque
  credential. \<open>config\<close> is \<open>None\<close> when the client object has no attribute \<^verbatim>\<open>config\<close>,
  otherwise the pair (base URL, environment).
\<close>

record secure_connection =
  conn_agent :: agent
  credential :: string

record aztp =
  secure_connect :: "agent \<Rightarrow> string \<Rightarrow> error + secure_connection"
  verify_identity :: "secure_connection \<Rightarrow> error + bool"
  get_identity :: "secure_connection \<Rightarrow> error + string"
  config :: "(string \<times> string) option"

text \<open>
  What a run does to the outside world, in the order it does it: calls into the identity
  service, the progress tracker, node calls of the executor, and the two diagnostic
  print statements.
\<close>

datatype event =
    SecureConnect string string
  | VerifyIdentity string
  | GetIdentity string
  | ProgressStart
  | ProgressStop
  | NodeCall string
  | ReportError error
  | ConfigDump string string
  | ParseErrorLog string

section \<open>\<^verbatim>\<open>secure_wrap_agents\<close>\<close>

definition agents :: "agent_modules \<Rightarrow> (string \<times> agent) list" where
  "agents m =
    [(''warren_buffett'', warren_buffett_agent m),
     (''ben_graham'', ben_graham_agent m),
     (''bill_ackman'', bill_ackman_agent m),
     (''fundamentals'', fundamentals_agent m),
     (''technicals'', technical_analyst_agent m),
     (''sentiment'', sentiment_agent m),
     (''valuation'', valuation_agent m),
     (''portfolio'', portfolio_management_agent m),
     (''risk'', risk_management_agent m)]"

definition aztp_names :: "(string \<times> string) list" where
  "aztp_names =
    [(''warren_buffett'', ''warren-buffett''),
     (''ben_graham'', ''ben-graham''),
     (''bill_ackman'', ''bill-ackman''),
     (''fundamentals'', ''fundamentals''),
     (''technicals'', ''technicals''),
     (''sentiment'', ''sentiment''),
     (''valuation'', ''valuation''),
     (''portfolio'', ''portfolio''),
     (''risk'', ''risk'')]"

text \<open>
  \<^verbatim>\<open>make_callable(secure_conn)\<close>: the secured agent is a closure over the connection that
  delegates to the connection's original callable. The closure is represented by the
  connection it captures (\<^verbatim>\<open>__closure__[0].cell_contents\<close>); calling it is
  \<open>wrapped_agent\<close>.
\<close>

definition wrapped_agent :: "secure_connection \<Rightarrow> agent" where
  "wrapped_agent secure_conn state = conn_agent secure_conn state"

text \<open>
  The first loop: one awaited \<^verbatim>\<open>secure_connect\<close> per entry of \<open>agents\<close>, in dictionary
  order. The next registration is requested only when the previous one has returned; an
  exception leaves the loop.
\<close>

fun secure_each ::
  "aztp \<Rightarrow> (string \<times> agent) list \<Rightarrow> (string \<times> secure_connection) list \<Rightarrow> event list
    \<Rightarrow> (error + (string \<times> secure_connection) list) \<times> event list" where
  "secure_each client [] secured_agents tr = (Inr secured_agents, tr)"
| "secure_each client ((name, agent) # rest) secured_agents tr =
    (case map_of aztp_names name of
      None \<Rightarrow> (Inl (KeyError name), tr)
    | Some aname \<Rightarrow>
        (case secure_connect client agent (aname @ ''-analyst'') of
          Inl e \<Rightarrow> (Inl e, tr @ [SecureConnect name (aname @ ''-analyst'')])
        | Inr secured_conn \<Rightarrow>
            secure_each client rest (secured_agents @ [(name, secured_conn)])
              (tr @ [SecureConnect name (aname @ ''-analyst'')])))"

text \<open>
  \<^verbatim>\<open>asyncio.gather\<close>: every awaitable is started; the result is the list of results, or
  an exception raised by one of them (here the first in list order).
\<close>

fun gather :: "(error + 'a) list \<Rightarrow> error + 'a list" where
  "gather [] = Inr []"
| "gather (Inl e # rs) = Inl e"
| "gather (Inr v # rs) = (case gather rs of Inl e \<Rightarrow> Inl e | Inr vs \<Rightarrow> Inr (v # vs))"

text \<open>The last loop: one awaited \<^verbatim>\<open>get_identity\<close> per secured agent, printed.\<close>

fun print_identities ::
  "aztp \<Rightarrow> (string \<times> secure_connection) list \<Rightarrow> event list \<Rightarrow> (error + unit) \<times> event list" where
  "print_identities client [] tr = (Inr (), tr)"
| "print_identities client ((name, sc) # rest) tr =
    (case get_identity client sc of
      Inl e \<Rightarrow> (Inl e, tr @ [GetIdentity name])
    | Inr identity \<Rightarrow> print_identities client rest (tr @ [GetIdentity name]))"

definition secure_wrap_agents ::
  "agent_modules \<Rightarrow> aztp \<Rightarrow> (error + (string \<times> secure_connection) list) \<times> event list" where
  "secure_wrap_agents m client =
    (case secure_each client (agents m) [] [] of
      (Inl e, tr) \<Rightarrow> (Inl e, tr)
    | (Inr secured_agents, tr) \<Rightarrow>
        (let tr2 = tr @ map (\<lambda>(name, sc). VerifyIdentity name) secured_agents in
         case gather (map (\<lambda>(name, sc). verify_identity client sc) secured_agents) of
           Inl e \<Rightarrow> (Inl e, tr2)
         | Inr agents_valid \<Rightarrow>
             if \<not> list_all (\<lambda>b. b) agents_valid
             then (Inl (ValueError ''Agent verification failed''), tr2)
             else (case print_identities client secured_agents tr2 of
                     (Inl e, tr3) \<Rightarrow> (Inl e, tr3)
                   | (Inr u, tr3) \<Rightarrow> (Inr secured_agents, tr3))))"

section \<open>\<^verbatim>\<open>utils/analysts.py\<close>\<close>

record analyst_entry =
  display_name :: string
  cfg_key :: string
  cfg_order :: int

definition ANALYST_CONFIG :: "(string \<times> analyst_entry) list" where
  "ANALYST_CONFIG =
    [(''ben_graham'',
        \<lparr>display_name = ''Ben Graham'', cfg_key = ''ben_graham'', cfg_order = 0\<rparr>),
     (''bill_ackman'',
        \<lparr>display_name = ''Bill Ackman'', cfg_key = ''bill_ackman'', cfg_order = 1\<rparr>),
     (''warren_buffett'',
        \<lparr>display_name = ''Warren Buffett'', cfg_key = ''warren_buffett'', cfg_order = 2\<rparr>),
     (''technical_analyst'',
        \<lparr>display_name = ''Technical Analyst'', cfg_key = ''technicals'', cfg_order = 3\<rparr>),
     (''fundamentals_analyst'',
        \<lparr>display_name = ''Fundamentals Analyst'', cfg_key = ''fundamentals'', cfg_order = 4\<rparr>),
     (''sentiment_analyst'',
        \<lparr>display_name = ''Sentiment Analyst'', cfg_key = ''sentiment'', cfg_order = 5\<rparr>),
     (''valuation_analyst'',
        \<lparr>display_name = ''Valuation Analyst'', cfg_key = ''valuation'', cfg_order = 6\<rparr>)]"

text \<open>\<^verbatim>\<open>sorted(ANALYST_CONFIG.keys(), key=lambda x: ANALYST_CONFIG[x]["order"])\<close>, a stable sort.\<close>

definition ANALYST_ORDER :: "string list" where
  "ANALYST_ORDER = map fst (sort_key (\<lambda>(k, entry). cfg_order entry) ANALYST_CONFIG)"

text \<open>
  The dictionary literal of \<^verbatim>\<open>get_analyst_nodes\<close>: each workflow node name with the key
  under which its callable is looked up in \<^verbatim>\<open>secured_agents\<close>, in the order the literal
  evaluates its entries.
\<close>

definition node_sources :: "(string \<times> string) list" where
  "node_sources =
    [(''ben_graham'', ''ben_graham''),
     (''bill_ackman'', ''bill_ackman''),
     (''warren_buffett'', ''warren_buffett''),
     (''technical_analyst'', ''technicals''),
     (''fundamentals_analyst'', ''fundamentals''),
     (''sentiment_analyst'', ''sentiment''),
     (''valuation_analyst'', ''valuation'')]"

fun secured_nodes ::
  "(string \<times> string) list \<Rightarrow> (string \<times> secure_connection) list \<Rightarrow> error + (string \<times> agent) list" where
  "secured_nodes [] secured_agents = Inr []"
| "secured_nodes ((node, k) # rest) secured_agents =
    (case map_of secured_agents k of
      None \<Rightarrow> Inl (KeyError k)
    | Some sc \<Rightarrow>
        (case secured_nodes rest secured_agents of
          Inl e \<Rightarrow> Inl e
        | Inr ns \<Rightarrow> Inr ((node, wrapped_agent sc) # ns)))"

definition get_analyst_nodes ::
  "agent_modules \<Rightarrow> (string \<times> secure_connection) list option \<Rightarrow> error + (string \<times> agent) list" where
  "get_analyst_nodes m secured_agents =
    (case secured_agents of
      None \<Rightarrow>
        Inr [(''ben_graham'', ben_graham_agent m),
             (''bill_ackman'', bill_ackman_agent m),
             (''warren_buffett'', warren_buffett_agent m),
             (''technical_analyst'', technical_analyst_agent m),
             (''fundamentals_analyst'', fundamentals_agent m),
             (''sentiment_analyst'', sentiment_agent m),
             (''valuation_analyst'', valuation_agent m)]
    | Some secured \<Rightarrow> secured_nodes node_sources secured)"

section \<open>The graph library as \<^verbatim>\<open>create_workflow\<close> uses it\<close>

text \<open>
  \<^verbatim>\<open>langgraph.graph.StateGraph\<close>: a dictionary of named nodes and a set of edges.
  \<open>END\<close> and \<open>lg_START\<close> are the library's reserved markers; the node that
  \<^verbatim>\<open>create_workflow\<close> calls \<^verbatim>\<open>"START"\<close> is an ordinary node. \<open>add_node\<close> refuses a name
  that is already present or reserved, \<open>add_edge\<close> refuses an edge out of \<open>END\<close> or into
  \<open>lg_START\<close>, \<open>set_entry_point\<close> is an edge from \<open>lg_START\<close>, and \<open>compile\<close> validates
  that every edge starts and ends at a known node and that an entry point exists.
\<close>

definition END :: string where
  "END = ''__end__''"

definition lg_START :: string where
  "lg_START = ''__start__''"

record state_graph =
  nodes :: "(string \<times> agent) list"
  edges :: "(string \<times> string) list"

definition StateGraph :: state_graph where
  "StateGraph = \<lparr>nodes = [], edges = []\<rparr>"

definition add_node :: "string \<Rightarrow> agent \<Rightarrow> state_graph \<Rightarrow> error + state_graph" where
  "add_node node action g =
    (if node \<in> fst ` set (nodes g) then Inl (ValueError ''Node already present'')
     else if node = END \<or> node = lg_START then Inl (ValueError ''Node is reserved'')
     else Inr (g\<lparr>nodes := nodes g @ [(node, action)]\<rparr>))"

definition add_edge :: "string \<Rightarrow> string \<Rightarrow> state_graph \<Rightarrow> error + state_graph" where
  "add_edge start_key end_key g =
    (if start_key = END then Inl (ValueError ''END cannot be a start node'')
     else if end_key = lg_START then Inl (ValueError ''START cannot be an end node'')
     else Inr (g\<lparr>edges := List.insert (start_key, end_key) (edges g)\<rparr>))"

definition set_entry_point :: "string \<Rightarrow> state_graph \<Rightarrow> error + state_graph" where
  "set_entry_point key g = add_edge lg_START key g"

definition compile :: "state_graph \<Rightarrow> error + state_graph" where
  "compile g =
    (if \<exists>source \<in> fst ` set (edges g). source \<notin> fst ` set (nodes g) \<and> source \<noteq> lg_START
     then Inl (ValueError ''Found edge starting at unknown node'')
     else if lg_START \<notin> fst ` set (edges g)
     then Inl (ValueError ''Graph must have an entrypoint'')
     else if \<exists>target \<in> snd ` set (edges g). target \<notin> fst ` set (nodes g) \<and> target \<noteq> END
     then Inl (ValueError ''Found edge ending at unknown node'')
     else Inr g)"

section \<open>\<^verbatim>\<open>create_workflow\<close>\<close>

definition start_node :: agent where
  "start_node state = Inr state"

text \<open>
  The loop over \<^verbatim>\<open>selected_analysts\<close> that adds the nodes. \<open>sel\<close> is the whole list
  (for \<^verbatim>\<open>selected_analysts[0]\<close>), the third argument what is left to visit. A key that is
  not in \<^verbatim>\<open>analyst_nodes\<close> is passed over.
\<close>

fun add_analyst_nodes ::
  "string list \<Rightarrow> (string \<times> agent) list \<Rightarrow> string list \<Rightarrow> state_graph \<Rightarrow> error + state_graph" where
  "add_analyst_nodes sel analyst_nodes [] g = Inr g"
| "add_analyst_nodes sel analyst_nodes (analyst # rest) g =
    (case map_of analyst_nodes analyst of
      None \<Rightarrow> add_analyst_nodes sel analyst_nodes rest g
    | Some action \<Rightarrow>
        (case add_node analyst action g of
          Inl e \<Rightarrow> Inl e
        | Inr g1 \<Rightarrow>
            (case sel of
              [] \<Rightarrow> Inl IndexError
            | first # _ \<Rightarrow>
                if analyst = first
                then (case add_edge ''START'' analyst g1 of
                        Inl e \<Rightarrow> Inl e
                      | Inr g2 \<Rightarrow> add_analyst_nodes sel analyst_nodes rest g2)
                else add_analyst_nodes sel analyst_nodes rest g1)))"

text \<open>\<^verbatim>\<open>for i in range(len(selected_analysts) - 1)\<close>: an edge between neighbours.\<close>

fun add_sequence_edges :: "string list \<Rightarrow> state_graph \<Rightarrow> error + state_graph" where
  "add_sequence_edges (a # b # rest) g =
    (case add_edge a b g of
      Inl e \<Rightarrow> Inl e
    | Inr g1 \<Rightarrow> add_sequence_edges (b # rest) g1)"
| "add_sequence_edges sel g = Inr g"

definition create_workflow ::
  "agent_modules \<Rightarrow> string list \<Rightarrow> (string \<times> secure_connection) list \<Rightarrow> error + state_graph" where
  "create_workflow m selected_analysts secured_agents =
    (case get_analyst_nodes m (Some secured_agents) of
      Inl e \<Rightarrow> Inl e
    | Inr analyst_nodes \<Rightarrow>
        (case add_node ''START'' start_node StateGraph of
          Inl e \<Rightarrow> Inl e
        | Inr g0 \<Rightarrow>
            (case add_analyst_nodes selected_analysts analyst_nodes selected_analysts g0 of
              Inl e \<Rightarrow> Inl e
            | Inr g1 \<Rightarrow>
                (case add_sequence_edges selected_analysts g1 of
                  Inl e \<Rightarrow> Inl e
                | Inr g2 \<Rightarrow>
                    (case (if selected_analysts \<noteq> []
                           then add_edge (last selected_analysts) END g2 else Inr g2) of
                      Inl e \<Rightarrow> Inl e
                    | Inr g3 \<Rightarrow> set_entry_point ''START'' g3)))))"

section \<open>The executor\<close>

text \<open>
  \<^verbatim>\<open>agent.invoke\<close> belongs to the graph library and works on the state type of
  \<^verbatim>\<open>graph/state.py\<close>; neither is among the sources. A run takes the executor from its
  environment (see \<open>environment\<close> below), so what is proved of \<^verbatim>\<open>run_hedge_fund\<close> holds
  for every executor.

  \<open>successors\<close> reads the outgoing edges of a node off the graph.
\<close>

definition successors :: "state_graph \<Rightarrow> string \<Rightarrow> string list" where
  "successors g k = map snd (filter (\<lambda>(a, b). a = k) (edges g))"

text \<open>
  Modelled from the spec: the workflow executor of section 4.4, which is missing from the
  sources (it is the compiled graph of the library together with \<^verbatim>\<open>graph/state.py\<close>).
  Execution is strictly sequential: the run enters at the node the entry edge names, each
  node receives the state returned by its predecessor and returns the state that becomes
  the input of the next node, a failure of a node abandons the run, and reaching the end
  marker returns the accumulated state. The specification describes chains only. Where it
  says nothing (a node with no or with several outgoing edges, an edge to a name without a
  node, a walk that visits more nodes than the graph has) the model gives no result,
  \<open>None\<close>.
\<close>

fun run_from ::
  "nat \<Rightarrow> state_graph \<Rightarrow> string \<Rightarrow> agent_state \<Rightarrow> event list
    \<Rightarrow> ((error + agent_state) \<times> event list) option" where
  "run_from 0 g k state tr = None"
| "run_from (Suc fuel) g k state tr =
    (if k = END then Some (Inr state, tr)
     else
       (case map_of (nodes g) k of
         None \<Rightarrow> None
       | Some action \<Rightarrow>
           (case action state of
             Inl e \<Rightarrow> Some (Inl e, tr @ [NodeCall k])
           | Inr state' \<Rightarrow>
               (case successors g k of
                 [k'] \<Rightarrow> run_from fuel g k' state' (tr @ [NodeCall k])
               | _ \<Rightarrow> None))))"

definition invoke ::
  "state_graph \<Rightarrow> agent_state \<Rightarrow> ((error + agent_state) \<times> event list) option" where
  "invoke g state =
    (case successors g lg_START of
      [entry] \<Rightarrow> run_from (Suc (length (nodes g))) g entry state []
    | _ \<Rightarrow> None)"

section \<open>The JSON decoder behind \<^verbatim>\<open>parse_hedge_fund_response\<close>\<close>

text \<open>
  \<^verbatim>\<open>json.loads\<close> of the standard library on a text: the grammar its decoder accepts
  (white space, the literals, numbers, strings with their escapes checked in strict mode,
  arrays, objects, nothing but white space after the value). A decoded value is represented
  by its syntax tree: \<open>JNull\<close> is Python's \<^verbatim>\<open>None\<close>, a number is its literal, a string the
  text between its quotes as written, an object its members in order. The decoder bounds
  the depth of nested calls (\<open>RecursionError\<close>); here the bound grows with the length of the
  text.
\<close>

datatype json =
    JNull
  | JBool bool
  | JNumber string
  | JString string
  | JArray "json list"
  | JObject "(string \<times> json) list"

definition is_ws :: "char \<Rightarrow> bool" where
  "is_ws c = (c = CHR '' '' \<or> c = CHR 0x09 \<or> c = CHR 0x0A \<or> c = CHR 0x0D)"

definition skip_ws :: "string \<Rightarrow> string" where
  "skip_ws s = dropWhile is_ws s"

definition is_digit :: "char \<Rightarrow> bool" where
  "is_digit c = (c \<in> set ''0123456789'')"

definition is_hex :: "char \<Rightarrow> bool" where
  "is_hex c = (c \<in> set ''0123456789abcdefABCDEF'')"

definition quote :: char where
  "quote = CHR 0x22"

definition backslash :: char where
  "backslash = CHR 0x5C"

text \<open>\<^verbatim>\<open>scanstring\<close>, entered after the opening quote; the second argument collects the body.\<close>

fun scanstring :: "string \<Rightarrow> string \<Rightarrow> error + (string \<times> string)" where
  "scanstring [] acc = Inl (JSONDecodeError ''Unterminated string'')"
| "scanstring (c # r) acc =
    (if c = quote then Inr (acc, r)
     else if c = backslash then
       (case r of
         [] \<Rightarrow> Inl (JSONDecodeError ''Unterminated string'')
       | esc # r' \<Rightarrow>
           if esc = CHR ''u'' then
             (if 4 \<le> length r' \<and> list_all is_hex (take 4 r')
              then scanstring (drop 4 r') (acc @ c # esc # take 4 r')
              else Inl (JSONDecodeError ''Invalid unicode escape''))
           else if esc \<in> set [quote, backslash, CHR ''/'', CHR ''b'', CHR ''f'', CHR ''n'',
                              CHR ''r'', CHR ''t'']
           then scanstring r' (acc @ [c, esc])
           else Inl (JSONDecodeError ''Invalid escape''))
     else if (of_char c :: nat) < 0x20 then Inl (JSONDecodeError ''Invalid control character'')
     else scanstring r (acc @ [c]))"

text \<open>The number pattern \<^verbatim>\<open>(-?(?:0|[1-9]\d*))(\.\d+)?([eE][-+]?\d+)?\<close>, matched at the front.\<close>

definition match_int :: "string \<Rightarrow> (string \<times> string) option" where
  "match_int s =
    (case s of
      [] \<Rightarrow> None
    | c # r \<Rightarrow>
        if c = CHR ''0'' then Some ([c], r)
        else if is_digit c then Some (c # takeWhile is_digit r, dropWhile is_digit r)
        else None)"

definition match_frac :: "string \<Rightarrow> (string \<times> string) option" where
  "match_frac s =
    (case s of
      c # d # r \<Rightarrow>
        if c = CHR ''.'' \<and> is_digit d
        then Some (c # takeWhile is_digit (d # r), dropWhile is_digit (d # r))
        else None
    | _ \<Rightarrow> None)"

definition match_exp :: "string \<Rightarrow> (string \<times> string) option" where
  "match_exp s =
    (case s of
      [] \<Rightarrow> None
    | e # r \<Rightarrow>
        if e = CHR ''e'' \<or> e = CHR ''E'' then
          (let (sign, r1) =
             (case r of
               [] \<Rightarrow> ([], r)
             | c # r' \<Rightarrow> if c = CHR ''+'' \<or> c = CHR ''-'' then ([c], r') else ([], r))
           in case r1 of
                [] \<Rightarrow> None
              | d # _ \<Rightarrow>
                  if is_digit d
                  then Some (e # sign @ takeWhile is_digit r1, dropWhile is_digit r1)
                  else None)
        else None)"

definition match_number :: "string \<Rightarrow> (string \<times> string) option" where
  "match_number s =
    (let (neg, s1) =
       (case s of
         [] \<Rightarrow> ([], s)
       | c # r \<Rightarrow> if c = CHR ''-'' then ([c], r) else ([], s))
     in case match_int s1 of
          None \<Rightarrow> None
        | Some (integer, s2) \<Rightarrow>
            (let (frac, s3) = (case match_frac s2 of None \<Rightarrow> ([], s2) | Some p \<Rightarrow> p);
                 (exp, s4) = (case match_exp s3 of None \<Rightarrow> ([], s3) | Some p \<Rightarrow> p)
             in Some (neg @ integer @ frac @ exp, s4)))"

definition match_literal :: "string \<Rightarrow> string \<Rightarrow> bool" where
  "match_literal lit s = (take (length lit) s = lit)"

text \<open>
  \<^verbatim>\<open>scan_once\<close> with the array and object parsers it calls. \<open>array_items\<close> is entered at
  the start of an element, \<open>object_members\<close> after the opening quote of a member name.
\<close>

fun scan_once :: "nat \<Rightarrow> string \<Rightarrow> error + (json \<times> string)"
  and array_items :: "nat \<Rightarrow> string \<Rightarrow> json list \<Rightarrow> error + (json \<times> string)"
  and object_members :: "nat \<Rightarrow> string \<Rightarrow> (string \<times> json) list \<Rightarrow> error + (json \<times> string)"
where
  "scan_once 0 s = Inl RecursionError"
| "scan_once (Suc n) s =
    (case s of
      [] \<Rightarrow> Inl (JSONDecodeError ''Expecting value'')
    | c # r \<Rightarrow>
        if c = quote then
          (case scanstring r [] of
            Inl e \<Rightarrow> Inl e
          | Inr (str, r1) \<Rightarrow> Inr (JString str, r1))
        else if c = CHR ''{'' then
          (case skip_ws r of
            [] \<Rightarrow> Inl (JSONDecodeError ''Expecting property name enclosed in double quotes'')
          | d # r1 \<Rightarrow>
              if d = CHR ''}'' then Inr (JObject [], r1)
              else if d = quote then object_members n r1 []
              else Inl (JSONDecodeError ''Expecting property name enclosed in double quotes''))
        else if c = CHR ''['' then
          (case skip_ws r of
            [] \<Rightarrow> Inl (JSONDecodeError ''Expecting value'')
          | d # r1 \<Rightarrow>
              if d = CHR '']'' then Inr (JArray [], r1)
              else array_items n (d # r1) [])
        else if match_literal ''null'' s then Inr (JNull, drop 4 s)
        else if match_literal ''true'' s then Inr (JBool True, drop 4 s)
        else if match_literal ''false'' s then Inr (JBool False, drop 5 s)
        else
          (case match_number s of
            Some (lit, r1) \<Rightarrow> Inr (JNumber lit, r1)
          | None \<Rightarrow>
              if match_literal ''NaN'' s then Inr (JNumber ''NaN'', drop 3 s)
              else if match_literal ''Infinity'' s then Inr (JNumber ''Infinity'', drop 8 s)
              else if match_literal ''-Infinity'' s then Inr (JNumber ''-Infinity'', drop 9 s)
              else Inl (JSONDecodeError ''Expecting value'')))"
| "array_items 0 s acc = Inl RecursionError"
| "array_items (Suc n) s acc =
    (case scan_once n s of
      Inl e \<Rightarrow> Inl e
    | Inr (v, r1) \<Rightarrow>
        (case skip_ws r1 of
          [] \<Rightarrow> Inl (JSONDecodeError ''Expecting , delimiter'')
        | d # r2 \<Rightarrow>
            if d = CHR '']'' then Inr (JArray (acc @ [v]), r2)
            else if d = CHR '','' then array_items n (skip_ws r2) (acc @ [v])
            else Inl (JSONDecodeError ''Expecting , delimiter'')))"
| "object_members 0 s acc = Inl RecursionError"
| "object_members (Suc n) s acc =
    (case scanstring s [] of
      Inl e \<Rightarrow> Inl e
    | Inr (key, r1) \<Rightarrow>
        (case skip_ws r1 of
          [] \<Rightarrow> Inl (JSONDecodeError ''Expecting : delimiter'')
        | c # r2 \<Rightarrow>
            if c \<noteq> CHR '':'' then Inl (JSONDecodeError ''Expecting : delimiter'')
            else
              (case scan_once n (skip_ws r2) of
                Inl e \<Rightarrow> Inl e
              | Inr (v, r3) \<Rightarrow>
                  (case skip_ws r3 of
                    [] \<Rightarrow> Inl (JSONDecodeError ''Expecting , delimiter'')
                  | d # r4 \<Rightarrow>
                      if d = CHR ''}'' then Inr (JObject (acc @ [(key, v)]), r4)
                      else if d = CHR '','' then
                        (case skip_ws r4 of
                          [] \<Rightarrow> Inl (JSONDecodeError
                                  ''Expecting property name enclosed in double quotes'')
                        | q # r5 \<Rightarrow>
                            if q = quote then object_members n r5 (acc @ [(key, v)])
                            else Inl (JSONDecodeError
                                  ''Expecting property name enclosed in double quotes''))
                      else Inl (JSONDecodeError ''Expecting , delimiter'')))))"

definition json_loads :: "string \<Rightarrow> error + json" where
  "json_loads s =
    (case scan_once (2 * length s + 2) (skip_ws s) of
      Inl e \<Rightarrow> Inl e
    | Inr (obj, r) \<Rightarrow>
        if skip_ws r = [] then Inr obj else Inl (JSONDecodeError ''Extra data''))"

section \<open>\<^verbatim>\<open>parse_hedge_fund_response\<close>\<close>

text \<open>The bare \<^verbatim>\<open>except:\<close> catches whatever the decoder raises.\<close>

definition parse_hedge_fund_response :: "string \<Rightarrow> (error + json) \<times> event list" where
  "parse_hedge_fund_response response =
    (case json_loads response of
      Inr v \<Rightarrow> (Inr v, [])
    | Inl e \<Rightarrow> (Inr JNull, [ParseErrorLog response]))"

section \<open>Well-formed JSON texts\<close>











section \<open>\<^verbatim>\<open>run_hedge_fund\<close>\<close>

text \<open>
  The environment of a run, that is the collaborators it reaches without receiving them as
  arguments: the value of \<^verbatim>\<open>os.getenv("AZTP_API_KEY")\<close>, the constructor of the identity
  client, which may raise, and the graph library's executor (\<^verbatim>\<open>invoke\<close> of a compiled
  graph), which returns the final state or raises and calls nodes on the way.
\<close>

record environment =
  AZTP_API_KEY :: "string option"
  Aztp :: "string \<Rightarrow> error + aztp"
  graph_invoke :: "state_graph \<Rightarrow> agent_state \<Rightarrow> (error + agent_state) \<times> event list"

record run_result =
  decisions :: json
  result_signals :: "string \<rightharpoonup> signal"

text \<open>
  The outcome of a call: \<open>Inr (Some r)\<close> is the returned dictionary, \<open>Inr None\<close> the
  returned \<^verbatim>\<open>None\<close>, \<open>Inl e\<close> an exception that leaves \<^verbatim>\<open>run_hedge_fund\<close>.
\<close>

type_synonym outcome = "(error + run_result option) \<times> event list"

text \<open>
  The handler \<^verbatim>\<open>except Exception as e\<close>. Its second argument is the local variable
  \<^verbatim>\<open>client\<close>, \<open>None\<close> while nothing has been assigned to it: reading it then raises
  \<^verbatim>\<open>UnboundLocalError\<close> inside the handler.
\<close>

definition except_handler :: "error \<Rightarrow> aztp option \<Rightarrow> event list \<Rightarrow> outcome" where
  "except_handler e client tr =
    (case client of
      None \<Rightarrow> (Inl (UnboundLocalError ''client''), tr @ [ReportError e])
    | Some c \<Rightarrow>
        (case config c of
          None \<Rightarrow> (Inr None, tr @ [ReportError e])
        | Some (base_url, env_name) \<Rightarrow>
            (Inr None, tr @ [ReportError e, ConfigDump base_url env_name])))"

text \<open>The body of the inner \<^verbatim>\<open>try\<close>: build, compile, invoke, extract.\<close>

definition run_workflow ::
  "(state_graph \<Rightarrow> agent_state \<Rightarrow> (error + agent_state) \<times> event list)
    \<Rightarrow> agent_modules \<Rightarrow> string list \<Rightarrow> (string \<times> secure_connection) list \<Rightarrow> agent_state
    \<Rightarrow> (error + run_result) \<times> event list" where
  "run_workflow executor m selected_analysts secured_agents initial =
    (case create_workflow m
            (if selected_analysts \<noteq> [] then selected_analysts else ANALYST_ORDER)
            secured_agents of
      Inl e \<Rightarrow> (Inl e, [])
    | Inr workflow \<Rightarrow>
        (case compile workflow of
          Inl e \<Rightarrow> (Inl e, [])
        | Inr agent \<Rightarrow>
            (case executor agent initial of
              (Inl e, tr) \<Rightarrow> (Inl e, tr)
            | (Inr final_state, tr) \<Rightarrow>
                (case messages final_state of
                  [] \<Rightarrow> (Inl IndexError, tr)
                | _ # _ \<Rightarrow>
                    (case parse_hedge_fund_response
                            (content (last (messages final_state))) of
                      (Inl e, ptr) \<Rightarrow> (Inl e, tr @ ptr)
                    | (Inr d, ptr) \<Rightarrow>
                        (Inr \<lparr>decisions = d,
                              result_signals = analyst_signals (data final_state)\<rparr>,
                         tr @ ptr))))))"

definition initial_state ::
  "string list \<Rightarrow> string \<Rightarrow> string \<Rightarrow> (string \<times> int) list \<Rightarrow> bool \<Rightarrow> string \<Rightarrow> string
    \<Rightarrow> agent_state" where
  "initial_state tickers' start_date' end_date' portfolio' show_reasoning' model_name' model_provider' =
    \<lparr>messages = [\<lparr>content = ''Make trading decisions based on the provided data.''\<rparr>],
     data = \<lparr>tickers = tickers', portfolio = portfolio', start_date = start_date',
             end_date = end_date', analyst_signals = Map.empty\<rparr>,
     metadata = \<lparr>show_reasoning = show_reasoning', model_name = model_name',
                 model_provider = model_provider'\<rparr>\<rparr>"

definition run_hedge_fund ::
  "environment \<Rightarrow> agent_modules \<Rightarrow> string list \<Rightarrow> string \<Rightarrow> string \<Rightarrow> (string \<times> int) list
    \<Rightarrow> bool \<Rightarrow> string list \<Rightarrow> string \<Rightarrow> string \<Rightarrow> outcome" where
  "run_hedge_fund env m tickers' start_date' end_date' portfolio' show_reasoning'
      selected_analysts model_name' model_provider' =
    (case AZTP_API_KEY env of
      None \<Rightarrow> except_handler (ValueError ''AZTP_API_KEY is required'') None []
    | Some api_key \<Rightarrow>
        if api_key = [] then except_handler (ValueError ''AZTP_API_KEY is required'') None []
        else
          (case Aztp env api_key of
            Inl e \<Rightarrow> except_handler e None []
          | Inr client \<Rightarrow>
              (case secure_wrap_agents m client of
                (Inl e, tr) \<Rightarrow> except_handler e (Some client) tr
              | (Inr secured_agents, tr) \<Rightarrow>
                  (case run_workflow (graph_invoke env) m selected_analysts secured_agents
                          (initial_state tickers' start_date' end_date' portfolio'
                             show_reasoning' model_name' model_provider') of
                    (Inl e, wtr) \<Rightarrow>
                      except_handler e (Some client)
                        (tr @ [ProgressStart] @ wtr @ [ProgressStop])
                  | (Inr result, wtr) \<Rightarrow>
                      (Inr (Some result), tr @ [ProgressStart] @ wtr @ [ProgressStop])))))"

section \<open>Observations on a trace\<close>

text \<open>
  The node calls of a trace, and the requests the securing phase sends for the nine
  agents of its table: registrations, verifications and identity look-ups, in table order.
  \<open>registration\<close> is the request sent for one entry of the table.
\<close>

definition node_calls :: "event list \<Rightarrow> string list" where
  "node_calls tr = concat (map (\<lambda>ev. case ev of NodeCall k \<Rightarrow> [k] | _ \<Rightarrow> []) tr)"

definition registration_events :: "event list" where
  "registration_events = map (\<lambda>(name, aname). SecureConnect name (aname @ ''-analyst'')) aztp_names"

definition verification_events :: "event list" where
  "verification_events = map (\<lambda>(name, aname). VerifyIdentity name) aztp_names"

definition identity_events :: "event list" where
  "identity_events = map (\<lambda>(name, aname). GetIdentity name) aztp_names"

definition registration :: "string \<times> agent \<Rightarrow> event" where
  "registration p =
    (case map_of aztp_names (fst p) of
      Some aname \<Rightarrow> SecureConnect (fst p) (aname @ ''-analyst'')
    | None \<Rightarrow> SecureConnect (fst p) [])"

text \<open>The label under which \<^verbatim>\<open>secure_wrap_agents\<close> registers the agent of a key.\<close>

definition registration_label :: "string \<Rightarrow> string" where
  "registration_label name =
    (case map_of aztp_names name of Some aname \<Rightarrow> aname @ ''-analyst'' | None \<Rightarrow> [])"

section \<open>Concrete collaborators for the examples\<close>

text \<open>
  An agent that succeeds and writes one signal under the given key, an identity service
  that registers and verifies everything, one that rejects the verification of a single
  label, one whose registration of a single label fails, an executor that runs a pipeline
  as the specification describes and raises on any other graph, and an environment with an
  API key.
\<close>

definition writer :: "string \<Rightarrow> agent" where
  "writer k state =
    Inr (state\<lparr>data := (data state)\<lparr>analyst_signals := (analyst_signals (data state))(k \<mapsto> ''neutral'')\<rparr>,
               messages := messages state @ [\<lparr>content = ''{}''\<rparr>]\<rparr>)"

definition sample_modules :: agent_modules where
  "sample_modules =
    \<lparr>warren_buffett_agent = writer ''warren_buffett'',
     ben_graham_agent = writer ''ben_graham'',
     bill_ackman_agent = writer ''bill_ackman'',
     fundamentals_agent = writer ''fundamentals_analyst'',
     technical_analyst_agent = writer ''technical_analyst'',
     sentiment_agent = writer ''sentiment_analyst'',
     valuation_agent = writer ''valuation_analyst'',
     portfolio_management_agent = writer ''portfolio'',
     risk_management_agent = writer ''risk''\<rparr>"

definition accepting_client :: aztp where
  "accepting_client =
    \<lparr>secure_connect = (\<lambda>agent label. Inr \<lparr>conn_agent = agent, credential = label\<rparr>),
     verify_identity = (\<lambda>sc. Inr True),
     get_identity = (\<lambda>sc. Inr (credential sc)),
     config = None\<rparr>"

definition rejecting_client :: "string \<Rightarrow> aztp" where
  "rejecting_client label =
    accepting_client\<lparr>verify_identity := (\<lambda>sc. Inr (credential sc \<noteq> label))\<rparr>"

definition unreachable_client :: "string \<Rightarrow> aztp" where
  "unreachable_client label =
    accepting_client\<lparr>secure_connect :=
      (\<lambda>agent l. if l = label then Inl (ExternalError ''unreachable'')
                  else Inr \<lparr>conn_agent = agent, credential = l\<rparr>)\<rparr>"

definition pipeline_executor ::
  "state_graph \<Rightarrow> agent_state \<Rightarrow> (error + agent_state) \<times> event list" where
  "pipeline_executor g state =
    (case invoke g state of
      Some r \<Rightarrow> r
    | None \<Rightarrow> (Inl (ExternalError ''not a pipeline''), []))"

definition sample_env :: "aztp \<Rightarrow> environment" where
  "sample_env client =
    \<lparr>AZTP_API_KEY = Some ''key'', Aztp = (\<lambda>api_key. Inr client),
     graph_invoke = pipeline_executor\<rparr>"

text \<open>The secured agent set that the accepting service returns for \<open>sample_modules\<close>.\<close>

definition sample_secured :: "(string \<times> secure_connection) list" where
  "sample_secured =
    map (\<lambda>((name, agent), (name', aname)). (name, \<lparr>conn_agent = agent, credential = aname @ ''-analyst''\<rparr>))
      (zip (agents sample_modules) aztp_names)"

section \<open>The decision extractor\<close>


lemma loads_not_json: "json_loads ''not json'' = Inl (JSONDecodeError ''Expecting value'')"
  by code_simp

lemma loads_null: "json_loads ''null'' = Inr JNull"
  by code_simp


lemma loads_number: "json_loads ''42'' = Inr (JNumber ''42'')"
  by code_simp

lemma loads_string: \<open>json_loads ''"hold"'' = Inr (JString ''hold'')\<close>
  by code_simp

lemma loads_list: \<open>json_loads ''[1, "a"]'' = Inr (JArray [JNumber ''1'', JString ''a''])\<close>
  by code_simp











































text \<open>
  C10. The returned value is \<^verbatim>\<open>None\<close> both when the payload does not decode and when it
  is the valid JSON text \<^verbatim>\<open>null\<close>, so the return value of a failed parse equals that of a
  null decision. A decoded value of any shape is returned as it is: a number, a string
  and a list come back unchanged.
\<close>

theorem parse_hedge_fund_response_null_ambiguous:
  \<open>(\<forall>response e. json_loads response = Inl e \<longrightarrow>
       fst (parse_hedge_fund_response response) = Inr JNull)
   \<and> json_loads ''null'' = Inr JNull
   \<and> fst (parse_hedge_fund_response ''null'') = Inr JNull
   \<and> fst (parse_hedge_fund_response ''null'') = fst (parse_hedge_fund_response ''not json'')
   \<and> (\<forall>response v. json_loads response = Inr v \<longrightarrow>
       fst (parse_hedge_fund_response response) = Inr v)
   \<and> fst (parse_hedge_fund_response ''42'') = Inr (JNumber ''42'')
   \<and> fst (parse_hedge_fund_response ''"hold"'') = Inr (JString ''hold'')
   \<and> fst (parse_hedge_fund_response ''[1, "a"]'') = Inr (JArray [JNumber ''1'', JString ''a''])\<close>
  by (simp add: parse_hedge_fund_response_def loads_null loads_not_json loads_number
      loads_string loads_list)

theorem parse_hedge_fund_response_null_ambiguous_witness:
  \<open>json_loads ''[1, "a"]'' = Inr (JArray [JNumber ''1'', JString ''a''])
   \<and> json_loads ''not json'' = Inl (JSONDecodeError ''Expecting value'')
   \<and> fst (parse_hedge_fund_response ''not json'') = Inr JNull\<close>
  using parse_hedge_fund_response_null_ambiguous loads_list loads_not_json by blast

section \<open>Error propagation of a run\<close>

text \<open>
  C7. With no \<^verbatim>\<open>AZTP_API_KEY\<close> in the environment the run raises the configuration
  error before \<^verbatim>\<open>client\<close> is assigned; the handler reports it and then reads \<^verbatim>\<open>client\<close>,
  so \<^verbatim>\<open>UnboundLocalError\<close> leaves \<^verbatim>\<open>run_hedge_fund\<close> instead of the value \<^verbatim>\<open>None\<close>.
\<close>

theorem run_hedge_fund_missing_key_escapes:
  "run_hedge_fund \<lparr>AZTP_API_KEY = None, Aztp = mk, graph_invoke = ex\<rparr> m t s e p r sel mn mp =
    (Inl (UnboundLocalError ''client''),
     [ReportError (ValueError ''AZTP_API_KEY is required'')])"
  by (simp add: run_hedge_fund_def except_handler_def)

section \<open>The securing phase\<close>

lemma secure_each_cases:
  "secure_each client xs acc tr = (r, tr') \<Longrightarrow>
   list_all (\<lambda>p. map_of aztp_names (fst p) \<noteq> None) xs \<Longrightarrow>
     (\<exists>n<length xs. (\<exists>e. r = Inl e) \<and> tr' = tr @ take (Suc n) (map registration xs))
   \<or> (\<exists>conns. r = Inr (acc @ conns) \<and> map fst conns = map fst xs
         \<and> tr' = tr @ map registration xs)"
proof (induction xs arbitrary: acc tr)
  case Nil
  then show ?case by simp
next
  case (Cons x xs)
  obtain name agent where x: "x = (name, agent)" by (cases x)
  from Cons.prems(2) x obtain aname where an: "map_of aztp_names name = Some aname"
    by auto
  have reg: "registration x = SecureConnect name (aname @ ''-analyst'')"
    by (simp add: registration_def x an)
  have reg': "SecureConnect name (aname @ ''-analyst'') = registration x"
    by (simp add: reg)
  show ?case
  proof (cases "secure_connect client agent (aname @ ''-analyst'')")
    case (Inl e)
    with Cons.prems(1) x an have "r = Inl e" "tr' = tr @ [registration x]"
      by (auto simp: reg')
    then have "\<exists>n<length (x # xs). (\<exists>e. r = Inl e) \<and> tr' = tr @ take (Suc n) (map registration (x # xs))"
      by (intro exI[of _ 0]) simp
    then show ?thesis by blast
  next
    case (Inr sc)
    with Cons.prems(1) x an
    have step: "secure_each client xs (acc @ [(name, sc)]) (tr @ [registration x]) = (r, tr')"
      by (simp add: reg')
    from Cons.prems(2) have all: "list_all (\<lambda>p. map_of aztp_names (fst p) \<noteq> None) xs"
      by simp
    from Cons.IH[OF step all] show ?thesis
    proof
      assume "\<exists>n<length xs. (\<exists>e. r = Inl e) \<and>
        tr' = (tr @ [registration x]) @ take (Suc n) (map registration xs)"
      then obtain n where "n < length xs" "\<exists>e. r = Inl e"
        "tr' = (tr @ [registration x]) @ take (Suc n) (map registration xs)" by blast
      then have "Suc n < length (x # xs) \<and> (\<exists>e. r = Inl e) \<and>
          tr' = tr @ take (Suc (Suc n)) (map registration (x # xs))"
        by simp
      then show ?thesis by blast
    next
      assume "\<exists>conns. r = Inr ((acc @ [(name, sc)]) @ conns) \<and> map fst conns = map fst xs \<and>
        tr' = (tr @ [registration x]) @ map registration xs"
      then obtain conns where "r = Inr ((acc @ [(name, sc)]) @ conns)"
        "map fst conns = map fst xs" "tr' = (tr @ [registration x]) @ map registration xs"
        by blast
      then have "r = Inr (acc @ ((name, sc) # conns)) \<and>
         map fst ((name, sc) # conns) = map fst (x # xs) \<and>
         tr' = tr @ map registration (x # xs)"
        by (simp add: x)
      then show ?thesis by blast
    qed
  qed
qed

lemma agents_known: "list_all (\<lambda>p. map_of aztp_names (fst p) \<noteq> None) (agents m)"
  by (simp add: agents_def aztp_names_def)

lemma registration_agents: "map registration (agents m) = registration_events"
  by (simp add: agents_def registration_events_def registration_def aztp_names_def)

lemma agents_keys: "map fst (agents m) = map fst aztp_names"
  by (simp add: agents_def aztp_names_def)

lemma length_registration_events: "length registration_events = 9"
  by (simp add: registration_events_def aztp_names_def)

lemma secure_each_agents:
  assumes "secure_each client (agents m) [] [] = (r, tr)"
  shows "(\<exists>n<9. (\<exists>e. r = Inl e) \<and> tr = take (Suc n) registration_events)
       \<or> (\<exists>conns. r = Inr conns \<and> map fst conns = map fst aztp_names \<and> tr = registration_events)"
proof -
  have len: "length (agents m) = 9" by (simp add: agents_def)
  from secure_each_cases[OF assms agents_known]
  show ?thesis unfolding registration_agents agents_keys len by simp
qed

lemma gather_Inr: "gather rs = Inr vs \<Longrightarrow> rs = map Inr vs"
  by (induction rs arbitrary: vs rule: gather.induct) (auto split: sum.splits)

lemma print_identities_trace:
  "print_identities client xs tr = (r, tr') \<Longrightarrow>
    \<exists>n\<le>length xs. tr' = tr @ take n (map (\<lambda>p. GetIdentity (fst p)) xs)"
proof (induction xs arbitrary: tr)
  case Nil
  then show ?case by simp
next
  case (Cons x xs)
  obtain name sc where x: "x = (name, sc)" by (cases x)
  show ?case
  proof (cases "get_identity client sc")
    case (Inl e)
    with Cons.prems x have "tr' = tr @ take 1 (map (\<lambda>p. GetIdentity (fst p)) (x # xs))"
      by simp
    then show ?thesis by (intro exI[of _ 1]) simp
  next
    case (Inr i)
    with Cons.prems x have "print_identities client xs (tr @ [GetIdentity name]) = (r, tr')"
      by simp
    from Cons.IH[OF this] obtain n where "n \<le> length xs"
      "tr' = (tr @ [GetIdentity name]) @ take n (map (\<lambda>p. GetIdentity (fst p)) xs)" by blast
    then have "Suc n \<le> length (x # xs) \<and>
       tr' = tr @ take (Suc n) (map (\<lambda>p. GetIdentity (fst p)) (x # xs))"
      by (simp add: x)
    then show ?thesis by blast
  qed
qed

lemma secure_wrap_agents_trace:
  assumes "secure_wrap_agents m client = (r, tr)"
  shows "(\<exists>n<9. (\<exists>e. r = Inl e) \<and> tr = take (Suc n) registration_events)
       \<or> (\<exists>n\<le>9. tr = registration_events @ verification_events @ take n identity_events)"
proof -
  obtain r0 tr0 where se: "secure_each client (agents m) [] [] = (r0, tr0)"
    by (cases "secure_each client (agents m) [] []")
  from secure_each_agents[OF se] show ?thesis
  proof
    assume "\<exists>n<9. (\<exists>e. r0 = Inl e) \<and> tr0 = take (Suc n) registration_events"
    then obtain n e where n: "n < 9" "r0 = Inl e" "tr0 = take (Suc n) registration_events"
      by blast
    with assms se have "r = Inl e" "tr = tr0"
      by (simp_all add: secure_wrap_agents_def)
    with n show ?thesis by blast
  next
    assume "\<exists>conns. r0 = Inr conns \<and> map fst conns = map fst aztp_names \<and> tr0 = registration_events"
    then obtain conns where c: "r0 = Inr conns" "map fst conns = map fst aztp_names"
      "tr0 = registration_events" by blast
    have ver: "map (\<lambda>(name, sc). VerifyIdentity name) conns = verification_events"
    proof -
      have "map (\<lambda>(name, sc). VerifyIdentity name) conns = map VerifyIdentity (map fst conns)"
        by (simp add: case_prod_beta comp_def)
      also have "\<dots> = verification_events"
        by (simp add: c(2) verification_events_def case_prod_beta comp_def)
      finally show ?thesis .
    qed
    have ids: "map (\<lambda>p. GetIdentity (fst p)) conns = identity_events"
    proof -
      have "map (\<lambda>p. GetIdentity (fst p)) conns = map GetIdentity (map fst conns)"
        by (simp add: comp_def)
      also have "\<dots> = identity_events"
        by (simp add: c(2) identity_events_def case_prod_beta comp_def)
      finally show ?thesis .
    qed
    have len: "length conns = 9"
      using arg_cong[OF c(2), of length] by (simp add: aztp_names_def)
    let ?tr2 = "registration_events @ verification_events"
    show ?thesis
    proof (cases "gather (map (\<lambda>(name, sc). verify_identity client sc) conns)")
      case (Inl e)
      with assms se c ver have "tr = ?tr2 @ take 0 identity_events"
        by (simp add: secure_wrap_agents_def Let_def)
      then show ?thesis by (intro disjI2 exI[of _ 0]) simp
    next
      case (Inr vs)
      show ?thesis
      proof (cases "list_all (\<lambda>b. b) vs")
        case False
        with assms se c ver Inr have "tr = ?tr2 @ take 0 identity_events"
          by (simp add: secure_wrap_agents_def Let_def)
        then show ?thesis by (intro disjI2 exI[of _ 0]) simp
      next
        case True
        obtain r3 tr3 where pi: "print_identities client conns ?tr2 = (r3, tr3)"
          by (cases "print_identities client conns ?tr2")
        from print_identities_trace[OF pi] obtain n where
          n: "n \<le> length conns" "tr3 = ?tr2 @ take n (map (\<lambda>p. GetIdentity (fst p)) conns)"
          by blast
        from assms se c ver Inr True pi have "tr = tr3"
          by (cases r3) (simp_all add: secure_wrap_agents_def Let_def)
        with n len ids show ?thesis by auto
      qed
    qed
  qed
qed

lemma secure_wrap_agents_Inr:
  assumes "secure_wrap_agents m client = (Inr secured, tr)"
  shows "secure_each client (agents m) [] [] = (Inr secured, registration_events)"
    and "map fst secured = map fst aztp_names"
    and "\<forall>p \<in> set secured. verify_identity client (snd p) = Inr True"
    and "\<exists>n\<le>9. tr = registration_events @ verification_events @ take n identity_events"
proof -
  obtain r0 tr0 where se: "secure_each client (agents m) [] [] = (r0, tr0)"
    by (cases "secure_each client (agents m) [] []")
  from assms se obtain conns where r0: "r0 = Inr conns"
    by (cases r0) (simp_all add: secure_wrap_agents_def)
  from secure_each_agents[OF se] r0 have c: "map fst conns = map fst aztp_names"
    "tr0 = registration_events" by auto
  from assms se r0 obtain vs where
    g: "gather (map (\<lambda>(name, sc). verify_identity client sc) conns) = Inr vs"
    by (cases "gather (map (\<lambda>(name, sc). verify_identity client sc) conns)")
       (simp_all add: secure_wrap_agents_def Let_def)
  from assms se r0 g have all: "list_all (\<lambda>b. b) vs"
    by (cases "list_all (\<lambda>b. b) vs") (simp_all add: secure_wrap_agents_def Let_def)
  from assms se r0 g all have eq: "secured = conns"
    by (simp add: secure_wrap_agents_def Let_def split: prod.splits sum.splits)
  show "secure_each client (agents m) [] [] = (Inr secured, registration_events)"
    using se r0 c eq by simp
  show "map fst secured = map fst aztp_names" using c eq by simp
  show "\<forall>p \<in> set secured. verify_identity client (snd p) = Inr True"
  proof
    fix p assume "p \<in> set secured"
    then have "verify_identity client (snd p) \<in> set (map (\<lambda>(name, sc). verify_identity client sc) conns)"
      using eq by (auto simp: case_prod_beta)
    with gather_Inr[OF g] obtain v where "v \<in> set vs" "verify_identity client (snd p) = Inr v"
      by auto
    with all show "verify_identity client (snd p) = Inr True"
      by (auto simp: list_all_iff)
  qed
  from secure_wrap_agents_trace[OF assms]
  show "\<exists>n\<le>9. tr = registration_events @ verification_events @ take n identity_events"
    by auto
qed

lemma verification_gate:
  assumes "secure_each client (agents m) [] [] = (Inr secured, tr0)"
    and "(name, sc) \<in> set secured" and "verify_identity client sc = Inr False"
  shows "\<exists>e. secure_wrap_agents m client = (Inl e, tr0 @ map (\<lambda>(name, sc). VerifyIdentity name) secured)"
proof (cases "gather (map (\<lambda>(name, sc). verify_identity client sc) secured)")
  case (Inl e)
  with assms(1) show ?thesis by (simp add: secure_wrap_agents_def Let_def)
next
  case (Inr vs)
  from assms(2,3) have "Inr False \<in> set (map (\<lambda>(name, sc). verify_identity client sc) secured)"
    by force
  with gather_Inr[OF Inr] have "False \<in> set vs" by auto
  then have "\<not> list_all (\<lambda>b. b) vs" by (auto simp: list_all_iff)
  with assms(1) Inr show ?thesis by (simp add: secure_wrap_agents_def Let_def)
qed

lemma node_calls_append [simp]: "node_calls (a @ b) = node_calls a @ node_calls b"
  by (simp add: node_calls_def)

lemma node_calls_securing [simp]:
  "node_calls registration_events = []" "node_calls verification_events = []"
  "node_calls (take n identity_events) = []" "node_calls (take n registration_events) = []"
  by (simp_all add: node_calls_def registration_events_def verification_events_def
      identity_events_def aztp_names_def take_Cons')

lemma secure_wrap_agents_no_calls:
  assumes "secure_wrap_agents m client = (r, tr)"
  shows "node_calls tr = []" and "ProgressStart \<notin> set tr"
proof -
  from secure_wrap_agents_trace[OF assms] show "node_calls tr = []" by auto
  have 1: "ProgressStart \<notin> set registration_events" "ProgressStart \<notin> set verification_events"
    "ProgressStart \<notin> set identity_events"
    by (simp_all add: registration_events_def verification_events_def identity_events_def aztp_names_def)
  then have "\<And>n. ProgressStart \<notin> set (take n registration_events)"
    "\<And>n. ProgressStart \<notin> set (take n identity_events)"
    by (meson in_set_takeD)+
  with 1 secure_wrap_agents_trace[OF assms] show "ProgressStart \<notin> set tr" by auto
qed

lemma except_handler_bound:
  "\<exists>tr'. except_handler e (Some client) tr = (Inr None, tr @ ReportError e # tr')
      \<and> node_calls tr' = [] \<and> ProgressStart \<notin> set tr'"
  by (cases "config client") (auto simp: except_handler_def node_calls_def)

text \<open>
  C1. Once all registrations have returned, a single verification that answers false makes
  \<^verbatim>\<open>secure_wrap_agents\<close> raise. \<^verbatim>\<open>run_hedge_fund\<close> then goes from the securing phase
  straight into its handler: it returns \<^verbatim>\<open>None\<close>, the progress tracker is never started,
  no workflow is built and no node is called.
\<close>

theorem verification_failure_aborts_run:
  assumes "secure_each client (agents m) [] [] = (Inr secured, tr0)"
    and "(name, sc) \<in> set secured" and "verify_identity client sc = Inr False"
    and "AZTP_API_KEY env = Some api_key" and "api_key \<noteq> []" and "Aztp env api_key = Inr client"
  shows "\<exists>e tr. secure_wrap_agents m client = (Inl e, tr)
      \<and> run_hedge_fund env m t s d p r sel mn mp = except_handler e (Some client) tr
      \<and> fst (run_hedge_fund env m t s d p r sel mn mp) = Inr None
      \<and> node_calls (snd (run_hedge_fund env m t s d p r sel mn mp)) = []
      \<and> ProgressStart \<notin> set (snd (run_hedge_fund env m t s d p r sel mn mp))"
proof -
  from verification_gate[OF assms(1-3)] obtain e tr where
    sw: "secure_wrap_agents m client = (Inl e, tr)" by blast
  have run: "run_hedge_fund env m t s d p r sel mn mp = except_handler e (Some client) tr"
    using assms(4-6) sw by (simp add: run_hedge_fund_def)
  from except_handler_bound[of e client tr] obtain tr' where
    h: "except_handler e (Some client) tr = (Inr None, tr @ ReportError e # tr')"
       "node_calls tr' = []" "ProgressStart \<notin> set tr'" by blast
  from secure_wrap_agents_no_calls[OF sw] h run sw show ?thesis
    by (auto simp: node_calls_def)
qed

lemma secure_each_rejecting:
  "secure_each (rejecting_client l) (agents sample_modules) [] [] = (Inr sample_secured, registration_events)"
  by (simp add: agents_def aztp_names_def rejecting_client_def accepting_client_def
      sample_secured_def registration_events_def)

lemma secure_each_accepting:
  "secure_each accepting_client (agents sample_modules) [] [] = (Inr sample_secured, registration_events)"
  by (simp add: agents_def aztp_names_def accepting_client_def
      sample_secured_def registration_events_def)

lemma risk_in_sample:
  "(''risk'', \<lparr>conn_agent = risk_management_agent sample_modules, credential = ''risk-analyst''\<rparr>) \<in> set sample_secured"
  by (simp add: sample_secured_def agents_def aztp_names_def)

theorem verification_failure_aborts_run_witness:
  "verify_identity (rejecting_client ''risk-analyst'')
      \<lparr>conn_agent = risk_management_agent sample_modules, credential = ''risk-analyst''\<rparr> = Inr False
   \<and> fst (run_hedge_fund (sample_env (rejecting_client ''risk-analyst'')) sample_modules
        [''AAPL''] ''2024-01-01'' ''2024-03-01'' [] False [] ''gpt-4'' ''OpenAI'') = Inr None
   \<and> node_calls (snd (run_hedge_fund (sample_env (rejecting_client ''risk-analyst'')) sample_modules
        [''AAPL''] ''2024-01-01'' ''2024-03-01'' [] False [] ''gpt-4'' ''OpenAI'')) = []"
proof -
  have v: "verify_identity (rejecting_client ''risk-analyst'')
      \<lparr>conn_agent = risk_management_agent sample_modules, credential = ''risk-analyst''\<rparr> = Inr False"
    by (simp add: rejecting_client_def accepting_client_def)
  have e: "AZTP_API_KEY (sample_env (rejecting_client ''risk-analyst'')) = Some ''key''"
    "''key'' \<noteq> []"
    "Aztp (sample_env (rejecting_client ''risk-analyst'')) ''key'' = Inr (rejecting_client ''risk-analyst'')"
    by (simp_all add: sample_env_def)
  from verification_failure_aborts_run[OF secure_each_rejecting risk_in_sample v e] v
  show ?thesis by blast
qed

lemma secure_wrap_agents_first_blocks:
  assumes "secure_connect client (warren_buffett_agent m) ''warren-buffett-analyst'' = Inl e"
  shows "secure_wrap_agents m client = (Inl e, [SecureConnect ''warren_buffett'' ''warren-buffett-analyst''])"
  using assms by (simp add: secure_wrap_agents_def agents_def aztp_names_def)

lemma print_identities_Inr:
  "print_identities client xs tr = (Inr u, tr') \<Longrightarrow> tr' = tr @ map (\<lambda>p. GetIdentity (fst p)) xs"
proof (induction xs arbitrary: tr)
  case Nil
  then show ?case by simp
next
  case (Cons x xs)
  obtain name sc where x: "x = (name, sc)" by (cases x)
  from Cons.prems x obtain i where i: "get_identity client sc = Inr i"
    by (cases "get_identity client sc") simp_all
  with Cons.prems x have "print_identities client xs (tr @ [GetIdentity name]) = (Inr u, tr')"
    by simp
  from Cons.IH[OF this] show ?case by (simp add: x)
qed

lemma identity_full:
  assumes "secure_wrap_agents m client = (Inr secured, tr)"
  shows "tr = registration_events @ verification_events @ identity_events"
proof -
  note f = secure_wrap_agents_Inr[OF assms]
  have ver: "map (\<lambda>(name, sc). VerifyIdentity name) secured = verification_events"
  proof -
    have "map (\<lambda>(name, sc). VerifyIdentity name) secured = map VerifyIdentity (map fst secured)"
      by (simp add: case_prod_beta comp_def)
    then show ?thesis
      by (simp add: f(2) verification_events_def case_prod_beta comp_def)
  qed
  have ids: "map (\<lambda>p. GetIdentity (fst p)) secured = identity_events"
  proof -
    have "map (\<lambda>p. GetIdentity (fst p)) secured = map GetIdentity (map fst secured)"
      by (simp add: comp_def)
    then show ?thesis
      by (simp add: f(2) identity_events_def case_prod_beta comp_def)
  qed
  obtain r3 tr3 where pi:
    "print_identities client secured (registration_events @ verification_events) = (r3, tr3)"
    by (cases "print_identities client secured (registration_events @ verification_events)")
  from assms f(1) ver pi have r3: "r3 = Inr ()" "tr = tr3"
    by (cases r3; auto simp: secure_wrap_agents_def Let_def split: sum.splits if_splits)+
  from pi r3 have "print_identities client secured (registration_events @ verification_events)
      = (Inr (), tr3)" by simp
  from print_identities_Inr[OF this] ids r3 show ?thesis
    by simp
qed

text \<open>
  When the first registration fails, the registrations of the eight other agents are never
  requested: the registrations are not issued together.
\<close>

theorem registration_sequential_counterexample:
  "secure_wrap_agents sample_modules (unreachable_client ''warren-buffett-analyst'') =
     (Inl (ExternalError ''unreachable''), [SecureConnect ''warren_buffett'' ''warren-buffett-analyst''])
   \<and> SecureConnect ''ben_graham'' ''ben-graham-analyst'' \<notin>
       set (snd (secure_wrap_agents sample_modules (unreachable_client ''warren-buffett-analyst'')))"
  by (simp add: secure_wrap_agents_first_blocks unreachable_client_def accepting_client_def)

lemma wrap_accepting:
  "secure_wrap_agents sample_modules accepting_client =
    (Inr sample_secured, registration_events @ verification_events @ identity_events)"
  by (simp add: secure_wrap_agents_def secure_each_accepting)
     (simp add: sample_secured_def agents_def aztp_names_def accepting_client_def
        verification_events_def identity_events_def)

lemma registration_eq: "registration p = SecureConnect (fst p) (registration_label (fst p))"
  by (simp add: registration_def registration_label_def split: option.splits)

lemma secure_each_blocks:
  "list_all (\<lambda>p. map_of aztp_names (fst p) \<noteq> None) (before @ x # after) \<Longrightarrow>
   (\<forall>p \<in> set before. \<exists>sc. secure_connect client (snd p) (registration_label (fst p)) = Inr sc) \<Longrightarrow>
   secure_connect client (snd x) (registration_label (fst x)) = Inl e \<Longrightarrow>
   secure_each client (before @ x # after) acc tr =
     (Inl e, tr @ map registration before @ [registration x])"
proof (induction before arbitrary: acc tr)
  case Nil
  obtain name agent where x: "x = (name, agent)" by (cases x)
  from Nil.prems(1) x obtain aname where an: "map_of aztp_names name = Some aname" by auto
  from Nil.prems(3) x an have "secure_connect client agent (aname @ ''-analyst'') = Inl e"
    by (simp add: registration_label_def)
  with x an show ?case by (simp add: registration_def)
next
  case (Cons b before)
  obtain name agent where b: "b = (name, agent)" by (cases b)
  from Cons.prems(1) b obtain aname where an: "map_of aztp_names name = Some aname" by auto
  from Cons.prems(2) b an obtain sc where
    sc: "secure_connect client agent (aname @ ''-analyst'') = Inr sc"
    by (auto simp: registration_label_def)
  have 1: "list_all (\<lambda>p. map_of aztp_names (fst p) \<noteq> None) (before @ x # after)"
    using Cons.prems(1) by simp
  have 2: "\<forall>p \<in> set before. \<exists>sc. secure_connect client (snd p) (registration_label (fst p)) = Inr sc"
    using Cons.prems(2) by simp
  have "secure_each client ((b # before) @ x # after) acc tr =
      secure_each client (before @ x # after) (acc @ [(name, sc)])
        (tr @ [SecureConnect name (aname @ ''-analyst'')])"
    by (simp add: b an sc)
  also have "\<dots> = (Inl e, (tr @ [SecureConnect name (aname @ ''-analyst'')]) @
      map registration before @ [registration x])"
    by (rule Cons.IH[OF 1 2 Cons.prems(3)])
  also have "SecureConnect name (aname @ ''-analyst'') = registration b"
    by (simp add: registration_def b an)
  finally show ?case by simp
qed

lemma secure_wrap_agents_blocks:
  assumes "agents m = before @ (name, agent) # after"
    and "\<forall>p \<in> set before. \<exists>sc. secure_connect client (snd p) (registration_label (fst p)) = Inr sc"
    and "secure_connect client agent (registration_label name) = Inl e"
  shows "secure_wrap_agents m client = (Inl e, take (Suc (length before)) registration_events)"
proof -
  have k: "list_all (\<lambda>p. map_of aztp_names (fst p) \<noteq> None) (before @ (name, agent) # after)"
    using agents_known[of m] by (simp only: assms(1))
  have "secure_each client (agents m) [] [] =
      (Inl e, [] @ map registration before @ [registration (name, agent)])"
    unfolding assms(1) using assms(2,3) by (intro secure_each_blocks[OF k]) simp_all
  moreover have "map registration before @ [registration (name, agent)] =
      take (Suc (length before)) (map registration (agents m))"
    by (simp add: assms(1))
  ultimately show ?thesis
    by (simp add: secure_wrap_agents_def registration_agents)
qed

lemma first_failure:
  assumes "\<not> (\<forall>p \<in> set xs. \<exists>sc. f p = Inr sc)"
  shows "\<exists>before x after e. xs = before @ x # after
     \<and> (\<forall>p \<in> set before. \<exists>sc. f p = Inr sc) \<and> f x = Inl (e::error)"
proof -
  from assms have "\<exists>x \<in> set xs. \<not> (\<exists>sc. f x = Inr sc)" by simp
  from split_list_first_prop[OF this] obtain ys x zs where
    s: "xs = ys @ x # zs" "\<not> (\<exists>sc. f x = Inr sc)" "\<forall>y \<in> set ys. \<not> \<not> (\<exists>sc. f y = Inr sc)"
    by blast
  from s(2) obtain e where "f x = Inl e" by (cases "f x") auto
  with s show ?thesis by blast
qed

lemma verification_requires_all_registered:
  assumes "secure_wrap_agents m client = (r, tr)" and "VerifyIdentity n \<in> set tr"
  shows "\<forall>p \<in> set (agents m). \<exists>sc. secure_connect client (snd p) (registration_label (fst p)) = Inr sc"
proof (rule ccontr)
  assume "\<not> ?thesis"
  from first_failure[OF this] obtain before x after e where
    d: "agents m = before @ x # after"
    "\<forall>p \<in> set before. \<exists>sc. secure_connect client (snd p) (registration_label (fst p)) = Inr sc"
    "secure_connect client (snd x) (registration_label (fst x)) = Inl e"
    by blast
  obtain name agent where x: "x = (name, agent)" by (cases x)
  from secure_wrap_agents_blocks[of m before name agent after client e] d x assms(1)
  have "tr = take (Suc (length before)) registration_events" by simp
  with assms(2) have "VerifyIdentity n \<in> set registration_events"
    by (meson in_set_takeD)
  then show False by (simp add: registration_events_def aztp_names_def)
qed

text \<open>
  C6, as the code has it. Registrations are requested one at a time in the order of the
  agents table, each awaited before the next is requested: when the registration of an
  agent raises after those before it have returned, the requests sent are exactly the
  registrations up to that agent, and the phase raises the same exception. A verification
  is requested only when all nine registrations have returned, and then all nine
  verifications are requested together, after the nine registrations. The phase returns
  only when every verification has answered true, and then the identity look-ups have
  followed.
\<close>

theorem securing_requests_in_order:
  assumes "secure_wrap_agents m client = (r, tr)"
  shows "((\<exists>n<9. (\<exists>e. r = Inl e) \<and> tr = take (Suc n) registration_events)
          \<or> (\<exists>n\<le>9. tr = registration_events @ verification_events @ take n identity_events))
       \<and> (\<forall>before name agent after e.
             agents m = before @ (name, agent) # after
             \<and> (\<forall>p \<in> set before. \<exists>sc.
                   secure_connect client (snd p) (registration_label (fst p)) = Inr sc)
             \<and> secure_connect client agent (registration_label name) = Inl e
             \<longrightarrow> r = Inl e \<and> tr = take (Suc (length before)) registration_events)
       \<and> (\<forall>n. VerifyIdentity n \<in> set tr
             \<longrightarrow> (\<forall>p \<in> set (agents m). \<exists>sc.
                   secure_connect client (snd p) (registration_label (fst p)) = Inr sc)
               \<and> (\<exists>rest. tr = registration_events @ verification_events @ rest))
       \<and> (\<forall>secured. r = Inr secured
             \<longrightarrow> tr = registration_events @ verification_events @ identity_events
               \<and> (\<forall>p \<in> set secured. verify_identity client (snd p) = Inr True))"
proof (intro conjI allI impI)
  show d: "(\<exists>n<9. (\<exists>e. r = Inl e) \<and> tr = take (Suc n) registration_events)
      \<or> (\<exists>n\<le>9. tr = registration_events @ verification_events @ take n identity_events)"
    by (rule secure_wrap_agents_trace[OF assms])
  {
    fix n assume v: "VerifyIdentity n \<in> set tr"
    show "\<forall>p \<in> set (agents m). \<exists>sc.
        secure_connect client (snd p) (registration_label (fst p)) = Inr sc"
      by (rule verification_requires_all_registered[OF assms v])
    from d show "\<exists>rest. tr = registration_events @ verification_events @ rest"
    proof
      assume "\<exists>n<9. (\<exists>e. r = Inl e) \<and> tr = take (Suc n) registration_events"
      then obtain k where "tr = take (Suc k) registration_events" by blast
      with v have "VerifyIdentity n \<in> set registration_events" by (meson in_set_takeD)
      then have False by (simp add: registration_events_def aztp_names_def)
      then show ?thesis ..
    next
      assume "\<exists>n\<le>9. tr = registration_events @ verification_events @ take n identity_events"
      then show ?thesis by blast
    qed
  }
next
  fix before name agent after e
  assume h: "agents m = before @ (name, agent) # after
      \<and> (\<forall>p \<in> set before. \<exists>sc.
            secure_connect client (snd p) (registration_label (fst p)) = Inr sc)
      \<and> secure_connect client agent (registration_label name) = Inl e"
  from h have "secure_wrap_agents m client = (Inl e, take (Suc (length before)) registration_events)"
    by (intro secure_wrap_agents_blocks) blast+
  with assms show "r = Inl e" and "tr = take (Suc (length before)) registration_events"
    by simp_all
next
  fix secured
  assume "r = Inr secured"
  with assms have sw: "secure_wrap_agents m client = (Inr secured, tr)" by simp
  show "tr = registration_events @ verification_events @ identity_events"
    by (rule identity_full[OF sw])
  show "\<forall>p \<in> set secured. verify_identity client (snd p) = Inr True"
    by (rule secure_wrap_agents_Inr(3)[OF sw])
qed

theorem securing_requests_in_order_witness:
  "secure_wrap_agents sample_modules (unreachable_client ''bill-ackman-analyst'') =
     (Inl (ExternalError ''unreachable''),
      [SecureConnect ''warren_buffett'' ''warren-buffett-analyst'',
       SecureConnect ''ben_graham'' ''ben-graham-analyst'',
       SecureConnect ''bill_ackman'' ''bill-ackman-analyst''])"
proof -
  let ?c = "unreachable_client ''bill-ackman-analyst''"
  obtain r tr where sw: "secure_wrap_agents sample_modules ?c = (r, tr)"
    by (cases "secure_wrap_agents sample_modules ?c")
  have a: "agents sample_modules =
      [(''warren_buffett'', warren_buffett_agent sample_modules),
       (''ben_graham'', ben_graham_agent sample_modules)]
      @ (''bill_ackman'', bill_ackman_agent sample_modules) # drop 3 (agents sample_modules)"
    by (simp add: agents_def)
  have b: "\<forall>p \<in> set [(''warren_buffett'', warren_buffett_agent sample_modules),
       (''ben_graham'', ben_graham_agent sample_modules)]. \<exists>sc.
         secure_connect ?c (snd p) (registration_label (fst p)) = Inr sc"
    by (simp add: unreachable_client_def accepting_client_def registration_label_def aztp_names_def)
  have c: "secure_connect ?c (bill_ackman_agent sample_modules) (registration_label ''bill_ackman'')
      = Inl (ExternalError ''unreachable'')"
    by (simp add: unreachable_client_def accepting_client_def registration_label_def aztp_names_def)
  from securing_requests_in_order[OF sw, THEN conjunct2, THEN conjunct1, rule_format,
      OF conjI[OF a conjI[OF b c]]]
  have "r = Inl (ExternalError ''unreachable'')"
    "tr = take (Suc (Suc (Suc 0))) registration_events"
    by simp_all
  with sw show ?thesis
    by (simp add: registration_events_def aztp_names_def)
qed

section \<open>The workflow builder\<close>

lemma analyst_order:
  "ANALYST_ORDER = [''ben_graham'', ''bill_ackman'', ''warren_buffett'', ''technical_analyst'',
     ''fundamentals_analyst'', ''sentiment_analyst'', ''valuation_analyst'']"
  by code_simp

lemma node_sources_keys: "map fst node_sources = ANALYST_ORDER"
  by (simp add: analyst_order node_sources_def)

lemma add_node_iff:
  "add_node k f g = Inr g' \<longleftrightarrow>
     k \<notin> fst ` set (nodes g) \<and> k \<noteq> END \<and> k \<noteq> lg_START \<and> g' = g\<lparr>nodes := nodes g @ [(k, f)]\<rparr>"
  by (auto simp: add_node_def)

lemma add_edge_iff:
  "add_edge a b g = Inr g' \<longleftrightarrow>
     a \<noteq> END \<and> b \<noteq> lg_START \<and> g' = g\<lparr>edges := List.insert (a, b) (edges g)\<rparr>"
  by (auto simp: add_edge_def)

lemma START_not_reserved: "''START'' \<noteq> END" "''START'' \<noteq> lg_START" "END \<noteq> lg_START"
  by (simp_all add: END_def lg_START_def)

lemma secured_nodes_keys:
  "secured_nodes ns secured = Inr an \<Longrightarrow> map fst an = map fst ns"
  by (induction ns arbitrary: an) (auto split: option.splits sum.splits)

lemma get_analyst_nodes_keys:
  "get_analyst_nodes m (Some secured) = Inr an \<Longrightarrow> map fst an = ANALYST_ORDER"
  by (simp add: get_analyst_nodes_def secured_nodes_keys node_sources_keys)

lemma add_analyst_nodes_Inr:
  "add_analyst_nodes sel an rest g = Inr g' \<Longrightarrow>
     nodes g' = nodes g @ map (\<lambda>k. (k, the (map_of an k))) (filter (\<lambda>k. map_of an k \<noteq> None) rest)
   \<and> distinct (filter (\<lambda>k. map_of an k \<noteq> None) rest)
   \<and> (\<forall>k \<in> set rest. map_of an k \<noteq> None \<longrightarrow> k \<notin> fst ` set (nodes g) \<and> k \<noteq> END \<and> k \<noteq> lg_START)
   \<and> set (edges g') = set (edges g) \<union>
        {(''START'', k) |k. k \<in> set rest \<and> map_of an k \<noteq> None \<and> sel \<noteq> [] \<and> k = hd sel}
   \<and> (distinct (edges g) \<longrightarrow> distinct (edges g'))"
proof (induction rest arbitrary: g)
  case Nil
  then show ?case by simp
next
  case (Cons a rest)
  show ?case
  proof (cases "map_of an a")
    case None
    with Cons.prems have "add_analyst_nodes sel an rest g = Inr g'" by simp
    from Cons.IH[OF this] None show ?thesis by auto
  next
    case (Some f)
    with Cons.prems obtain g1 where g1: "add_node a f g = Inr g1"
      by (cases "add_node a f g") simp_all
    then have a: "a \<notin> fst ` set (nodes g)" "a \<noteq> END" "a \<noteq> lg_START"
      and g1_eq: "g1 = g\<lparr>nodes := nodes g @ [(a, f)]\<rparr>"
      by (simp_all add: add_node_iff)
    from Cons.prems Some g1 obtain first sel' where sel: "sel = first # sel'"
      by (cases sel) simp_all
    show ?thesis
    proof (cases "a = first")
      case True
      with Cons.prems Some g1 sel obtain g2 where g2: "add_edge ''START'' a g1 = Inr g2"
        and rec: "add_analyst_nodes sel an rest g2 = Inr g'"
        by (cases "add_edge ''START'' a g1") simp_all
      from g2 have g2_eq: "g2 = g1\<lparr>edges := List.insert (''START'', a) (edges g1)\<rparr>"
        by (simp add: add_edge_iff)
      from Cons.IH[OF rec] a Some sel True show ?thesis
        by (auto simp: g2_eq g1_eq)
    next
      case False
      with Cons.prems Some g1 sel have rec: "add_analyst_nodes sel an rest g1 = Inr g'"
        by simp
      from Cons.IH[OF rec] a Some sel False show ?thesis
        by (auto simp: g1_eq)
    qed
  qed
qed

lemma add_analyst_nodes_ok:
  "distinct rest \<Longrightarrow> set rest \<subseteq> set sel \<Longrightarrow>
   (\<forall>k \<in> set rest. k \<notin> fst ` set (nodes g) \<and> k \<noteq> END \<and> k \<noteq> lg_START) \<Longrightarrow>
   \<exists>g'. add_analyst_nodes sel an rest g = Inr g'"
proof (induction rest arbitrary: g)
  case Nil
  then show ?case by simp
next
  case (Cons a rest)
  from Cons.prems(2) obtain first sel' where sel: "sel = first # sel'"
    by (cases sel) auto
  show ?case
  proof (cases "map_of an a")
    case None
    with Cons.IH[of g] Cons.prems show ?thesis by simp
  next
    case (Some f)
    let ?g1 = "g\<lparr>nodes := nodes g @ [(a, f)]\<rparr>"
    let ?g2 = "?g1\<lparr>edges := List.insert (''START'', a) (edges ?g1)\<rparr>"
    from Cons.prems have g1: "add_node a f g = Inr ?g1" by (simp add: add_node_iff)
    from Cons.prems have g2: "add_edge ''START'' a ?g1 = Inr ?g2"
      by (simp add: add_edge_iff START_not_reserved)
    have "\<exists>g'. add_analyst_nodes sel an rest ?g1 = Inr g'"
      using Cons.prems by (intro Cons.IH) auto
    moreover have "\<exists>g'. add_analyst_nodes sel an rest ?g2 = Inr g'"
      using Cons.prems by (intro Cons.IH) auto
    ultimately show ?thesis using Some g1 g2 sel by auto
  qed
qed

lemma add_sequence_edges_Inr:
  "add_sequence_edges sel g = Inr g' \<Longrightarrow>
     nodes g' = nodes g \<and> set (edges g') = set (edges g) \<union> set (zip sel (tl sel))
   \<and> (distinct (edges g) \<longrightarrow> distinct (edges g'))"
proof (induction sel g arbitrary: g' rule: add_sequence_edges.induct)
  case (1 a b rest g)
  from "1.prems" obtain g1 where g1: "add_edge a b g = Inr g1"
    and rec: "add_sequence_edges (b # rest) g1 = Inr g'"
    by (cases "add_edge a b g") simp_all
  from g1 have "g1 = g\<lparr>edges := List.insert (a, b) (edges g)\<rparr>" by (simp add: add_edge_iff)
  with "1.IH"[OF g1 rec] show ?case by auto
qed simp_all

lemma add_sequence_edges_ok:
  "END \<notin> set sel \<Longrightarrow> lg_START \<notin> set sel \<Longrightarrow> \<exists>g'. add_sequence_edges sel g = Inr g'"
proof (induction sel g rule: add_sequence_edges.induct)
  case (1 a b rest g)
  let ?g1 = "g\<lparr>edges := List.insert (a, b) (edges g)\<rparr>"
  from "1.prems" have g1: "add_edge a b g = Inr ?g1" by (auto simp: add_edge_iff)
  from "1.IH"[OF g1] "1.prems" g1 show ?case by auto
qed simp_all

lemma in_catalog_iff:
  "get_analyst_nodes m (Some secured) = Inr an \<Longrightarrow> (map_of an k \<noteq> None) = (k \<in> set ANALYST_ORDER)"
  using get_analyst_nodes_keys[of m secured an]
  by (metis map_of_eq_None_iff set_map)

lemma create_workflow_Inr:
  assumes "create_workflow m sel secured = Inr g"
  shows "\<exists>an. get_analyst_nodes m (Some secured) = Inr an
     \<and> nodes g = (''START'', start_node) #
         map (\<lambda>k. (k, the (map_of an k))) (filter (\<lambda>k. k \<in> set ANALYST_ORDER) sel)
     \<and> distinct (filter (\<lambda>k. k \<in> set ANALYST_ORDER) sel)
     \<and> set (edges g) = insert (lg_START, ''START'')
         ({(''START'', k) |k. sel \<noteq> [] \<and> k = hd sel \<and> k \<in> set ANALYST_ORDER}
          \<union> set (zip sel (tl sel)) \<union> {(k, END) |k. sel \<noteq> [] \<and> k = last sel})
     \<and> distinct (edges g)"
proof -
  from assms obtain an where an: "get_analyst_nodes m (Some secured) = Inr an"
    by (cases "get_analyst_nodes m (Some secured)") (simp_all add: create_workflow_def)
  let ?g0 = "\<lparr>nodes = [(''START'', start_node)], edges = []\<rparr>"
  have g0: "add_node ''START'' start_node StateGraph = Inr ?g0"
    by (simp add: add_node_def StateGraph_def START_not_reserved)
  from assms an g0 obtain g1 where g1: "add_analyst_nodes sel an sel ?g0 = Inr g1"
    by (cases "add_analyst_nodes sel an sel ?g0") (simp_all add: create_workflow_def)
  from assms an g0 g1 obtain g2 where g2: "add_sequence_edges sel g1 = Inr g2"
    by (cases "add_sequence_edges sel g1") (simp_all add: create_workflow_def)
  from assms an g0 g1 g2 obtain g3 where
    g3: "(if sel \<noteq> [] then add_edge (last sel) END g2 else Inr g2) = Inr g3"
    and g: "set_entry_point ''START'' g3 = Inr g"
    by (cases "if sel \<noteq> [] then add_edge (last sel) END g2 else Inr g2")
       (simp_all add: create_workflow_def)
  have cat: "\<And>k. (map_of an k \<noteq> None) = (k \<in> set ANALYST_ORDER)"
    by (rule in_catalog_iff[OF an])
  note n1 = add_analyst_nodes_Inr[OF g1, unfolded cat]
  note n2 = add_sequence_edges_Inr[OF g2]
  have g3_eq: "nodes g3 = nodes g2
     \<and> set (edges g3) = set (edges g2) \<union> {(k, END) |k. sel \<noteq> [] \<and> k = last sel}
     \<and> (distinct (edges g2) \<longrightarrow> distinct (edges g3))"
    using g3 by (cases "sel = []") (auto simp: add_edge_iff)
  have g_eq: "nodes g = nodes g3 \<and> set (edges g) = insert (lg_START, ''START'') (set (edges g3))
     \<and> (distinct (edges g3) \<longrightarrow> distinct (edges g))"
    using g by (auto simp: set_entry_point_def add_edge_iff)
  have e1: "set (edges g1) = {(''START'', k) |k. sel \<noteq> [] \<and> k = hd sel \<and> k \<in> set ANALYST_ORDER}"
    using n1 by (cases sel) auto
  show ?thesis
    using an n1 n2 g3_eq g_eq e1 by (intro exI[of _ an]) (simp add: Un_assoc)
qed

lemma secured_nodes_cong:
  "(\<forall>k \<in> snd ` set ns. map_of s1 k = map_of s2 k) \<Longrightarrow> secured_nodes ns s1 = secured_nodes ns s2"
  by (induction ns) (auto split: option.splits sum.splits)

lemma create_workflow_cong:
  assumes "\<forall>k \<in> snd ` set node_sources. map_of s1 k = map_of s2 k"
  shows "create_workflow m sel s1 = create_workflow m sel s2"
  using secured_nodes_cong[OF assms] by (simp add: create_workflow_def get_analyst_nodes_def)

lemma create_workflow_names:
  assumes "create_workflow m sel secured = Inr g"
  shows "fst ` set (nodes g) = insert ''START'' (set sel \<inter> set ANALYST_ORDER)"
proof -
  from create_workflow_Inr[OF assms] obtain an where
    "nodes g = (''START'', start_node) #
         map (\<lambda>k. (k, the (map_of an k))) (filter (\<lambda>k. k \<in> set ANALYST_ORDER) sel)"
    by blast
  then show ?thesis by (auto simp: image_iff)
qed

lemma complete_secured:
  assumes "map fst secured = map fst aztp_names"
  shows "\<exists>an. get_analyst_nodes m (Some secured) = Inr an"
proof -
  have "\<And>k. k \<in> set (map fst aztp_names) \<Longrightarrow> \<exists>sc. map_of secured k = Some sc"
    using assms by (metis map_of_eq_None_iff not_Some_eq set_map)
  then have "\<exists>a b c d e f g. map_of secured ''ben_graham'' = Some a
      \<and> map_of secured ''bill_ackman'' = Some b \<and> map_of secured ''warren_buffett'' = Some c
      \<and> map_of secured ''technicals'' = Some d \<and> map_of secured ''fundamentals'' = Some e
      \<and> map_of secured ''sentiment'' = Some f \<and> map_of secured ''valuation'' = Some g"
    by (simp add: aztp_names_def)
  then show ?thesis
    by (auto simp: get_analyst_nodes_def node_sources_def)
qed

lemma add_analyst_nodes_Inl:
  "add_analyst_nodes sel an rest g = Inl e \<Longrightarrow> set rest \<subseteq> set sel \<Longrightarrow>
   (\<forall>k. map_of an k \<noteq> None \<longrightarrow> k \<noteq> END \<and> k \<noteq> lg_START) \<Longrightarrow>
   e = ValueError ''Node already present''"
proof (induction rest arbitrary: g)
  case Nil
  then show ?case by simp
next
  case (Cons a rest)
  from Cons.prems(2) obtain first sel' where sel: "sel = first # sel'"
    by (cases sel) auto
  show ?case
  proof (cases "map_of an a")
    case None
    with Cons show ?thesis by simp
  next
    case (Some f)
    with Cons.prems(3) have a: "a \<noteq> END" "a \<noteq> lg_START" by auto
    show ?thesis
    proof (cases "a \<in> fst ` set (nodes g)")
      case True
      with Cons.prems(1) Some show ?thesis by (simp add: add_node_def)
    next
      case False
      let ?g1 = "g\<lparr>nodes := nodes g @ [(a, f)]\<rparr>"
      let ?g2 = "?g1\<lparr>edges := List.insert (''START'', a) (edges ?g1)\<rparr>"
      from False a have g1: "add_node a f g = Inr ?g1" by (simp add: add_node_iff)
      from a have g2: "add_edge ''START'' a ?g1 = Inr ?g2"
        by (simp add: add_edge_iff START_not_reserved)
      from Cons.prems(1) Some g1 g2 sel
      have "add_analyst_nodes sel an rest ?g1 = Inl e \<or> add_analyst_nodes sel an rest ?g2 = Inl e"
        by (auto split: if_splits)
      with Cons.IH Cons.prems(2,3) show ?thesis by auto
    qed
  qed
qed

lemma catalog_not_reserved: "k \<in> set ANALYST_ORDER \<Longrightarrow> k \<noteq> END \<and> k \<noteq> lg_START \<and> k \<noteq> ''START''"
  by (auto simp: analyst_order END_def lg_START_def)

lemma repeated_catalog_key:
  assumes "\<not> distinct (filter (\<lambda>k. k \<in> set ANALYST_ORDER) sel)"
    and "get_analyst_nodes m (Some secured) = Inr an"
  shows "create_workflow m sel secured = Inl (ValueError ''Node already present'')"
proof -
  let ?g0 = "\<lparr>nodes = [(''START'', start_node)], edges = []\<rparr>"
  have g0: "add_node ''START'' start_node StateGraph = Inr ?g0"
    by (simp add: add_node_def StateGraph_def START_not_reserved)
  have cat: "\<And>k. (map_of an k \<noteq> None) = (k \<in> set ANALYST_ORDER)"
    by (rule in_catalog_iff[OF assms(2)])
  show ?thesis
  proof (cases "add_analyst_nodes sel an sel ?g0")
    case (Inl e)
    from add_analyst_nodes_Inl[OF Inl] cat catalog_not_reserved
    have "e = ValueError ''Node already present''" by auto
    with Inl assms(2) g0 show ?thesis by (simp add: create_workflow_def)
  next
    case (Inr g1)
    from add_analyst_nodes_Inr[OF Inr, unfolded cat] assms(1) show ?thesis by simp
  qed
qed

lemma run_after_securing:
  assumes "AZTP_API_KEY env = Some api_key" "api_key \<noteq> []" "Aztp env api_key = Inr client"
    and "secure_wrap_agents m client = (Inr secured, tr)"
  shows "run_hedge_fund env m t s d p r sel mn mp =
    (case run_workflow (graph_invoke env) m sel secured (initial_state t s d p r mn mp) of
      (Inl e, wtr) \<Rightarrow> except_handler e (Some client) (tr @ [ProgressStart] @ wtr @ [ProgressStop])
    | (Inr result, wtr) \<Rightarrow> (Inr (Some result), tr @ [ProgressStart] @ wtr @ [ProgressStop]))"
  using assms by (simp add: run_hedge_fund_def)

lemma build_failure_run:
  assumes "AZTP_API_KEY env = Some api_key" "api_key \<noteq> []" "Aztp env api_key = Inr client"
    and "secure_wrap_agents m client = (Inr secured, tr)"
    and "sel \<noteq> []"
    and "case create_workflow m sel secured of Inl e' \<Rightarrow> e' = e | Inr g \<Rightarrow> compile g = Inl e"
  shows "run_hedge_fund env m t s d p r sel mn mp =
      except_handler e (Some client) (tr @ [ProgressStart, ProgressStop])"
    and "fst (run_hedge_fund env m t s d p r sel mn mp) = Inr None"
    and "node_calls (snd (run_hedge_fund env m t s d p r sel mn mp)) = []"
proof -
  from assms(5,6) have "run_workflow (graph_invoke env) m sel secured
      (initial_state t s d p r mn mp) = (Inl e, [])"
    by (auto simp: run_workflow_def split: sum.splits)
  with run_after_securing[OF assms(1-4)]
  show run: "run_hedge_fund env m t s d p r sel mn mp =
      except_handler e (Some client) (tr @ [ProgressStart, ProgressStop])"
    by simp
  from except_handler_bound[of e client "tr @ [ProgressStart, ProgressStop]"] obtain tr' where
    h: "except_handler e (Some client) (tr @ [ProgressStart, ProgressStop]) =
          (Inr None, (tr @ [ProgressStart, ProgressStop]) @ ReportError e # tr')"
       "node_calls tr' = []" by blast
  show "fst (run_hedge_fund env m t s d p r sel mn mp) = Inr None"
    using run h by simp
  show "node_calls (snd (run_hedge_fund env m t s d p r sel mn mp)) = []"
    using run h secure_wrap_agents_no_calls(1)[OF assms(4)] by (simp add: node_calls_def)
qed

lemma sample_nodes:
  "get_analyst_nodes sample_modules (Some sample_secured) =
    Inr [(''ben_graham'', wrapped_agent \<lparr>conn_agent = writer ''ben_graham'', credential = ''ben-graham-analyst''\<rparr>),
         (''bill_ackman'', wrapped_agent \<lparr>conn_agent = writer ''bill_ackman'', credential = ''bill-ackman-analyst''\<rparr>),
         (''warren_buffett'', wrapped_agent \<lparr>conn_agent = writer ''warren_buffett'', credential = ''warren-buffett-analyst''\<rparr>),
         (''technical_analyst'', wrapped_agent \<lparr>conn_agent = writer ''technical_analyst'', credential = ''technicals-analyst''\<rparr>),
         (''fundamentals_analyst'', wrapped_agent \<lparr>conn_agent = writer ''fundamentals_analyst'', credential = ''fundamentals-analyst''\<rparr>),
         (''sentiment_analyst'', wrapped_agent \<lparr>conn_agent = writer ''sentiment_analyst'', credential = ''sentiment-analyst''\<rparr>),
         (''valuation_analyst'', wrapped_agent \<lparr>conn_agent = writer ''valuation_analyst'', credential = ''valuation-analyst''\<rparr>)]"
  by (simp add: get_analyst_nodes_def node_sources_def sample_secured_def agents_def
      aztp_names_def sample_modules_def)

lemma build_empty:
  assumes "get_analyst_nodes m (Some secured) = Inr an"
  shows "create_workflow m [] secured =
     Inr \<lparr>nodes = [(''START'', start_node)], edges = [(lg_START, ''START'')]\<rparr>"
  using assms
  by (simp add: create_workflow_def add_node_def StateGraph_def START_not_reserved
      set_entry_point_def add_edge_def START_not_reserved[symmetric])



lemma build_START_START:
  "create_workflow sample_modules [''START'', ''START''] sample_secured =
     Inr \<lparr>nodes = [(''START'', start_node)],
          edges = [(lg_START, ''START''), (''START'', END), (''START'', ''START'')]\<rparr>"
  by (simp add: create_workflow_def sample_nodes add_node_def StateGraph_def START_not_reserved
      set_entry_point_def add_edge_def END_def lg_START_def)


lemma compile_START_START:
  "compile \<lparr>nodes = [(''START'', start_node)],
            edges = [(lg_START, ''START''), (''START'', END), (''START'', ''START'')]\<rparr>
    = Inr \<lparr>nodes = [(''START'', start_node)],
            edges = [(lg_START, ''START''), (''START'', END), (''START'', ''START'')]\<rparr>"
  by (simp add: compile_def END_def lg_START_def)

lemma build_single:
  "create_workflow sample_modules [''ben_graham''] sample_secured =
     Inr \<lparr>nodes = [(''START'', start_node),
                   (''ben_graham'', wrapped_agent \<lparr>conn_agent = writer ''ben_graham'', credential = ''ben-graham-analyst''\<rparr>)],
          edges = [(lg_START, ''START''), (''ben_graham'', END), (''START'', ''ben_graham'')]\<rparr>"
  by (simp add: create_workflow_def sample_nodes add_node_def StateGraph_def START_not_reserved
      set_entry_point_def add_edge_def END_def lg_START_def)

lemma compile_start_only:
  "compile \<lparr>nodes = [(''START'', start_node)], edges = [(lg_START, ''START'')]\<rparr> =
     Inr \<lparr>nodes = [(''START'', start_node)], edges = [(lg_START, ''START'')]\<rparr>"
  by (simp add: compile_def END_def lg_START_def)

text \<open>
  For the empty key list the builder adds no edge out of the start node: the guard
  \<^verbatim>\<open>if selected_analysts\<close> skips the edge to \<open>END\<close>, and nothing else connects the two.
\<close>

theorem empty_selection_counterexample:
  "\<exists>g. create_workflow sample_modules [] sample_secured = Inr g
     \<and> (''START'', END) \<notin> set (edges g) \<and> successors g ''START'' = []"
  by (simp add: build_empty[OF sample_nodes] successors_def END_def lg_START_def)

text \<open>
  C3, as the code has it. Built from the empty key list, the workflow consists of the
  start node alone; it is the entry point, it has no outgoing edge, and the node itself
  returns any state unchanged. The workflow compiles. \<^verbatim>\<open>run_hedge_fund\<close> never builds it:
  an empty selection is replaced by \<open>ANALYST_ORDER\<close>, whatever the executor.
\<close>

theorem empty_selection_start_only:
  assumes "get_analyst_nodes m (Some secured) = Inr an"
  shows "\<exists>g. create_workflow m [] secured = Inr g
      \<and> nodes g = [(''START'', start_node)]
      \<and> edges g = [(lg_START, ''START'')]
      \<and> compile g = Inr g
      \<and> successors g ''START'' = []
      \<and> (\<forall>state. start_node state = Inr state)
      \<and> (\<forall>executor state. run_workflow executor m [] secured state =
            run_workflow executor m ANALYST_ORDER secured state)"
  by (simp add: build_empty[OF assms] compile_start_only start_node_def
      run_workflow_def successors_def START_not_reserved[symmetric])

theorem empty_selection_start_only_witness:
  "\<exists>g. create_workflow sample_modules [] sample_secured = Inr g
      \<and> nodes g = [(''START'', start_node)] \<and> compile g = Inr g"
  using empty_selection_start_only[OF sample_nodes] by blast

text \<open>
  C9. No workflow that \<^verbatim>\<open>create_workflow\<close> builds has a node named \<^verbatim>\<open>portfolio\<close> or
  \<^verbatim>\<open>risk\<close>, and the workflow does not depend on the secured entries of these two agents.
  Yet a securing phase that succeeds has registered and verified all nine agents, these two
  included, and a false verification of either of them fails the whole phase.
\<close>

theorem portfolio_and_risk_secured_never_nodes:
  "(\<forall>m sel secured g. create_workflow m sel secured = Inr g \<longrightarrow>
       ''portfolio'' \<notin> fst ` set (nodes g) \<and> ''risk'' \<notin> fst ` set (nodes g))
   \<and> (\<forall>m sel s1 s2. (\<forall>k. k \<noteq> ''portfolio'' \<and> k \<noteq> ''risk'' \<longrightarrow> map_of s1 k = map_of s2 k)
         \<longrightarrow> create_workflow m sel s1 = create_workflow m sel s2)
   \<and> (\<forall>m client secured tr. secure_wrap_agents m client = (Inr secured, tr) \<longrightarrow>
         map fst secured = [''warren_buffett'', ''ben_graham'', ''bill_ackman'', ''fundamentals'',
            ''technicals'', ''sentiment'', ''valuation'', ''portfolio'', ''risk'']
         \<and> tr = registration_events @ verification_events @ identity_events
         \<and> SecureConnect ''portfolio'' ''portfolio-analyst'' \<in> set tr
         \<and> SecureConnect ''risk'' ''risk-analyst'' \<in> set tr
         \<and> VerifyIdentity ''portfolio'' \<in> set tr
         \<and> VerifyIdentity ''risk'' \<in> set tr
         \<and> (\<forall>p \<in> set secured. verify_identity client (snd p) = Inr True))
   \<and> (\<forall>m client secured tr0 name sc.
         secure_each client (agents m) [] [] = (Inr secured, tr0)
         \<and> (name = ''portfolio'' \<or> name = ''risk'') \<and> (name, sc) \<in> set secured
         \<and> verify_identity client sc = Inr False
         \<longrightarrow> (\<exists>e tr. secure_wrap_agents m client = (Inl e, tr)))"
proof (intro conjI allI impI)
  fix m sel secured g
  assume "create_workflow m sel secured = Inr g"
  from create_workflow_names[OF this]
  show "''portfolio'' \<notin> fst ` set (nodes g)" and "''risk'' \<notin> fst ` set (nodes g)"
    by (simp_all add: analyst_order)
next
  fix m sel and s1 s2 :: "(string \<times> secure_connection) list"
  assume "\<forall>k. k \<noteq> ''portfolio'' \<and> k \<noteq> ''risk'' \<longrightarrow> map_of s1 k = map_of s2 k"
  then have "\<forall>k \<in> snd ` set node_sources. map_of s1 k = map_of s2 k"
    by (simp add: node_sources_def)
  then show "create_workflow m sel s1 = create_workflow m sel s2"
    by (rule create_workflow_cong)
next
  fix m client secured tr
  assume sw: "secure_wrap_agents m client = (Inr secured, tr)"
  note f = secure_wrap_agents_Inr[OF sw]
  show "map fst secured = [''warren_buffett'', ''ben_graham'', ''bill_ackman'', ''fundamentals'',
            ''technicals'', ''sentiment'', ''valuation'', ''portfolio'', ''risk'']"
    using f(2) by (simp add: aztp_names_def)
  show tr: "tr = registration_events @ verification_events @ identity_events"
    by (rule identity_full[OF sw])
  show "SecureConnect ''portfolio'' ''portfolio-analyst'' \<in> set tr"
    and "SecureConnect ''risk'' ''risk-analyst'' \<in> set tr"
    and "VerifyIdentity ''portfolio'' \<in> set tr"
    and "VerifyIdentity ''risk'' \<in> set tr"
    by (simp_all add: tr registration_events_def verification_events_def aztp_names_def)
  show "\<forall>p \<in> set secured. verify_identity client (snd p) = Inr True"
    by (rule f(3))
next
  fix m client secured tr0 name sc
  assume "secure_each client (agents m) [] [] = (Inr secured, tr0)
         \<and> (name = ''portfolio'' \<or> name = ''risk'') \<and> (name, sc) \<in> set secured
         \<and> verify_identity client sc = Inr False"
  then show "\<exists>e tr. secure_wrap_agents m client = (Inl e, tr)"
    using verification_gate by blast
qed

theorem portfolio_and_risk_secured_never_nodes_witness:
  "(\<exists>g. create_workflow sample_modules [''ben_graham''] sample_secured = Inr g
      \<and> ''portfolio'' \<notin> fst ` set (nodes g) \<and> ''risk'' \<notin> fst ` set (nodes g))
   \<and> VerifyIdentity ''risk'' \<in> set (snd (secure_wrap_agents sample_modules accepting_client))
   \<and> (\<exists>e tr. secure_wrap_agents sample_modules (rejecting_client ''portfolio-analyst'') = (Inl e, tr))"
proof -
  note t = portfolio_and_risk_secured_never_nodes
  have 1: "\<exists>g. create_workflow sample_modules [''ben_graham''] sample_secured = Inr g
      \<and> ''portfolio'' \<notin> fst ` set (nodes g) \<and> ''risk'' \<notin> fst ` set (nodes g)"
    using t[THEN conjunct1, rule_format, OF build_single] build_single by simp
  have 2: "VerifyIdentity ''risk'' \<in> set (snd (secure_wrap_agents sample_modules accepting_client))"
    using t[THEN conjunct2, THEN conjunct2, THEN conjunct1, rule_format, OF wrap_accepting]
      wrap_accepting by simp
  have p: "(''portfolio'', \<lparr>conn_agent = portfolio_management_agent sample_modules,
             credential = ''portfolio-analyst''\<rparr>) \<in> set sample_secured"
    by (simp add: sample_secured_def agents_def aztp_names_def)
  have v: "verify_identity (rejecting_client ''portfolio-analyst'')
      \<lparr>conn_agent = portfolio_management_agent sample_modules, credential = ''portfolio-analyst''\<rparr>
       = Inr False"
    by (simp add: rejecting_client_def accepting_client_def)
  have 3: "\<exists>e tr. secure_wrap_agents sample_modules (rejecting_client ''portfolio-analyst'') = (Inl e, tr)"
    using t[THEN conjunct2, THEN conjunct2, THEN conjunct2, rule_format,
        of "rejecting_client ''portfolio-analyst''" sample_modules sample_secured
           registration_events "''portfolio''"]
      secure_each_rejecting[of "''portfolio-analyst''"] p v by blast
  from 1 2 3 show ?thesis by blast
qed

section \<open>Malformed pipeline requests\<close>

lemma sample_env_ok:
  "AZTP_API_KEY (sample_env client) = Some ''key''" "''key'' \<noteq> []"
  "Aztp (sample_env client) ''key'' = Inr client"
  by (simp_all add: sample_env_def)

text \<open>
  A run on \<^verbatim>\<open>[ben_graham, ben_graham]\<close> performs the whole securing phase, 27 requests to the
  identity service, before the builder rejects the repeated key. The list
  \<^verbatim>\<open>[START, START]\<close> repeats a key and is built and compiled without complaint.
\<close>

theorem repeated_key_counterexample:
  "run_hedge_fund (sample_env accepting_client) sample_modules [''AAPL''] ''2024-01-01''
      ''2024-03-01'' [] False [''ben_graham'', ''ben_graham''] ''gpt-4'' ''OpenAI'' =
     (Inr None, registration_events @ verification_events @ identity_events @
        [ProgressStart, ProgressStop, ReportError (ValueError ''Node already present'')])
   \<and> (\<exists>g. create_workflow sample_modules [''START'', ''START''] sample_secured = Inr g
         \<and> compile g = Inr g)"
proof -
  have "\<not> distinct (filter (\<lambda>k. k \<in> set ANALYST_ORDER) [''ben_graham'', ''ben_graham''])"
    by (simp add: analyst_order)
  from repeated_catalog_key[OF this sample_nodes]
  have "case create_workflow sample_modules [''ben_graham'', ''ben_graham''] sample_secured of
          Inl e' \<Rightarrow> e' = ValueError ''Node already present''
        | Inr g \<Rightarrow> compile g = Inl (ValueError ''Node already present'')"
    by simp
  from build_failure_run(1)[OF sample_env_ok wrap_accepting _ this]
  show ?thesis
    by (simp add: except_handler_def accepting_client_def build_START_START compile_START_START)
qed

text \<open>
  C4, as the code has it. When a key of the analyst catalog is repeated in the requested
  list, \<^verbatim>\<open>add_node\<close> refuses the second occurrence inside \<^verbatim>\<open>create_workflow\<close> with a
  \<^verbatim>\<open>ValueError\<close>. This happens after the securing phase has run completely and before any
  node is called; the run reports the error and returns \<^verbatim>\<open>None\<close>.
\<close>

theorem repeated_key_rejected_after_securing:
  assumes "\<not> distinct (filter (\<lambda>k. k \<in> set ANALYST_ORDER) sel)"
    and "AZTP_API_KEY env = Some api_key" and "api_key \<noteq> []" and "Aztp env api_key = Inr client"
    and "secure_wrap_agents m client = (Inr secured, tr)"
  shows "create_workflow m sel secured = Inl (ValueError ''Node already present'')
     \<and> tr = registration_events @ verification_events @ identity_events
     \<and> run_hedge_fund env m t s d p r sel mn mp =
         except_handler (ValueError ''Node already present'') (Some client)
           (tr @ [ProgressStart, ProgressStop])
     \<and> fst (run_hedge_fund env m t s d p r sel mn mp) = Inr None
     \<and> node_calls (snd (run_hedge_fund env m t s d p r sel mn mp)) = []"
proof -
  from secure_wrap_agents_Inr(2)[OF assms(5)] obtain an where
    an: "get_analyst_nodes m (Some secured) = Inr an"
    using complete_secured by blast
  have cw: "create_workflow m sel secured = Inl (ValueError ''Node already present'')"
    by (rule repeated_catalog_key[OF assms(1) an])
  then have c: "case create_workflow m sel secured of
          Inl e' \<Rightarrow> e' = ValueError ''Node already present''
        | Inr g \<Rightarrow> compile g = Inl (ValueError ''Node already present'')"
    by simp
  from assms(1) have ne: "sel \<noteq> []" by auto
  note b = build_failure_run[OF assms(2-5) ne c]
  show ?thesis
    by (intro conjI) (rule cw identity_full[OF assms(5)] b)+
qed

theorem repeated_key_rejected_after_securing_witness:
  "create_workflow sample_modules [''bill_ackman'', ''ben_graham'', ''bill_ackman''] sample_secured =
      Inl (ValueError ''Node already present'')
   \<and> fst (run_hedge_fund (sample_env accepting_client) sample_modules [''AAPL''] ''2024-01-01''
      ''2024-03-01'' [] False [''bill_ackman'', ''ben_graham'', ''bill_ackman''] ''gpt-4'' ''OpenAI'')
      = Inr None"
proof -
  have "\<not> distinct (filter (\<lambda>k. k \<in> set ANALYST_ORDER) [''bill_ackman'', ''ben_graham'', ''bill_ackman''])"
    by (simp add: analyst_order)
  from repeated_key_rejected_after_securing[OF this sample_env_ok wrap_accepting]
  show ?thesis by blast
qed






end
